theory Spec2Isabelle
  imports Main
begin

section \<open>The burner wallet adapter (BurnerWalletAdapter)\<close>

text \<open>
  Errors thrown by the adapter. The three wallet errors are the classes the adapter imports
  from the wallet-adapter base package; each carries its message. \<open>ParseError\<close> stands for
  the exception raised by \<^verbatim>\<open>JSON.parse\<close> (or by destructuring its result) when it is not
  caught.
\<close>

datatype error =
    WalletConnectionError string
  | WalletDisconnectionError string
  | WalletNotConnectedError string
  | ParseError

text \<open>
  The record that \<^verbatim>\<open>createBurnerWallet\<close> serialises under the key \<^verbatim>\<open>'burnerWallet'\<close>.
  \<open>createdAt\<close> is kept as the number \<^verbatim>\<open>new Date(createdAt).getTime()\<close> (milliseconds),
  \<open>None\<close> when that number is NaN.
\<close>

record walletData =
  publicKey :: string
  secretKey :: "nat list"
  username :: string
  email :: string
  createdAt :: "int option"

text \<open>
  The content of the storage entry: a string on which \<^verbatim>\<open>JSON.parse\<close> (or the
  destructuring of its result) throws, or a serialised record. The entry itself is an
  \<open>item option\<close>; \<open>None\<close> is a \<^verbatim>\<open>getItem\<close> that returns a falsy value.
\<close>

datatype item = Malformed | Stored walletData

datatype 'kp event = ConnectEvent 'kp | DisconnectEvent

text \<open>
  The private fields of the adapter, the storage entry it shares with the page, and the
  events it has emitted. \<open>disconnectTimer\<close> is the time at which the pending timeout is
  due, \<open>None\<close> when no timeout is pending.
\<close>

record 'kp adapter =
  keypair :: "'kp option"
  connecting :: bool
  connected :: bool
  disconnectTimer :: "int option"
  localStorage :: "item option"
  emitted :: "'kp event list"

definition EXPIRY_TIME :: int where
  "EXPIRY_TIME = 24 * 60 * 60 * 1000"

definition clearWallet :: "'kp adapter \<Rightarrow> 'kp adapter" where
  "clearWallet s =
     s\<lparr>keypair := None, connected := False, localStorage := None,
       disconnectTimer := None, emitted := emitted s @ [DisconnectEvent]\<rparr>"

text \<open>
  \<^verbatim>\<open>connect\<close>: the early return, the throw when no keypair is loaded (re-thrown by the
  catch block as a \<^verbatim>\<open>WalletConnectionError\<close> with the same message), and the
  \<^verbatim>\<open>finally\<close> block that resets \<^verbatim>\<open>_connecting\<close> on every path.
\<close>

definition connect :: "'kp adapter \<Rightarrow> (error + unit) \<times> 'kp adapter" where
  "connect s =
     (if connecting s \<or> connected s then (Inr (), s\<lparr>connecting := False\<rparr>)
      else
        (case keypair s of
           None \<Rightarrow> (Inl (WalletConnectionError ''No burner wallet found''), s\<lparr>connecting := False\<rparr>)
         | Some k \<Rightarrow>
             (Inr (), s\<lparr>connected := True, connecting := False,
                        emitted := emitted s @ [ConnectEvent k]\<rparr>)))"

text \<open>
  \<^verbatim>\<open>setupDisconnectTimer(creationTime)\<close> at clock value \<open>now\<close>. When the creation time
  is NaN so is \<^verbatim>\<open>timeLeft\<close>: the test \<^verbatim>\<open>timeLeft <= 0\<close> is false and
  \<^verbatim>\<open>setTimeout\<close> takes the delay as 0.
\<close>

definition setupDisconnectTimer :: "int \<Rightarrow> int option \<Rightarrow> 'kp adapter \<Rightarrow> 'kp adapter" where
  "setupDisconnectTimer now creationTime s =
     (case creationTime of
        None \<Rightarrow> s\<lparr>disconnectTimer := Some now\<rparr>
      | Some c \<Rightarrow>
          (if EXPIRY_TIME - (now - c) \<le> 0 then clearWallet s
           else s\<lparr>disconnectTimer := Some (now + (EXPIRY_TIME - (now - c)))\<rparr>))"

text \<open>
  \<^verbatim>\<open>loadBurnerWallet\<close>. \<open>fromSecretKey\<close> is the library's \<^verbatim>\<open>Keypair.fromSecretKey\<close>
  (\<open>None\<close> when it throws); \<open>now\<close> is the clock read in the function itself and \<open>now'\<close>
  the one read in \<^verbatim>\<open>setupDisconnectTimer\<close>. Every exception ends in the catch block,
  which clears the wallet.
\<close>

definition loadBurnerWallet ::
  "(nat list \<Rightarrow> 'kp option) \<Rightarrow> int \<Rightarrow> int \<Rightarrow> 'kp adapter \<Rightarrow> 'kp adapter" where
  "loadBurnerWallet fromSecretKey now now' s =
     (case localStorage s of
        None \<Rightarrow> s
      | Some Malformed \<Rightarrow> clearWallet s
      | Some (Stored d) \<Rightarrow>
          (if (case createdAt d of None \<Rightarrow> False | Some c \<Rightarrow> now - c > EXPIRY_TIME)
           then clearWallet s
           else
             (case fromSecretKey (secretKey d) of
                None \<Rightarrow> clearWallet s
              | Some k \<Rightarrow>
                  (let s1 = setupDisconnectTimer now' (createdAt d) (s\<lparr>keypair := Some k\<rparr>)
                   in if connected s1 then snd (connect s1) else s1))))"

text \<open>The callback of the timeout runs \<^verbatim>\<open>clearWallet\<close>, not before the timeout is due.\<close>

definition timerFires :: "int \<Rightarrow> 'kp adapter \<Rightarrow> 'kp adapter" where
  "timerFires now s =
     (case disconnectTimer s of
        None \<Rightarrow> s
      | Some due \<Rightarrow> if due \<le> now then clearWallet s else s)"

definition disconnect :: "'kp adapter \<Rightarrow> (error + unit) \<times> 'kp adapter" where
  "disconnect s = (Inr (), clearWallet s)"

text \<open>
  \<^verbatim>\<open>signTransaction\<close>. \<open>partialSign\<close> is the library's \<^verbatim>\<open>transaction.partialSign\<close>
  (\<open>Inl\<close> the message of the exception it throws). Whatever is thrown inside the try block
  is re-thrown as a \<^verbatim>\<open>WalletNotConnectedError\<close> with the same message.
\<close>

definition signTransaction ::
  "('kp \<Rightarrow> 'tx \<Rightarrow> string + 'tx) \<Rightarrow> 'kp adapter \<Rightarrow> 'tx \<Rightarrow> error + 'tx" where
  "signTransaction partialSign s tx =
     (if \<not> connected s then Inl (WalletNotConnectedError [])
      else
        (case keypair s of
           None \<Rightarrow> Inl (WalletNotConnectedError [])
         | Some k \<Rightarrow>
             (case partialSign k tx of
                Inl msg \<Rightarrow> Inl (WalletNotConnectedError msg)
              | Inr tx' \<Rightarrow> Inr tx')))"

text \<open>
  \<^verbatim>\<open>Promise.all\<close> over promises that are already settled: the first rejection in the
  order of the array, otherwise all the values.
\<close>

fun promise_all :: "('e + 'a) list \<Rightarrow> 'e + 'a list" where
  "promise_all [] = Inr []"
| "promise_all (Inl e # rs) = Inl e"
| "promise_all (Inr v # rs) =
     (case promise_all rs of Inl e \<Rightarrow> Inl e | Inr vs \<Rightarrow> Inr (v # vs))"

definition signAllTransactions ::
  "('kp \<Rightarrow> 'tx \<Rightarrow> string + 'tx) \<Rightarrow> 'kp adapter \<Rightarrow> 'tx list \<Rightarrow> error + 'tx list" where
  "signAllTransactions partialSign s txs = promise_all (map (signTransaction partialSign s) txs)"

text \<open>
  \<^verbatim>\<open>getTimeRemaining\<close> reads the storage entry, not the loaded keypair, and parses it
  outside any try block. The number returned is \<open>None\<close> when it is NaN.
\<close>

definition getTimeRemaining :: "int \<Rightarrow> 'kp adapter \<Rightarrow> error + int option" where
  "getTimeRemaining now s =
     (case localStorage s of
        None \<Rightarrow> Inr (Some 0)
      | Some Malformed \<Rightarrow> Inl ParseError
      | Some (Stored d) \<Rightarrow>
          (case createdAt d of
             None \<Rightarrow> Inr None
           | Some c \<Rightarrow> Inr (Some (max 0 (EXPIRY_TIME - (now - c))))))"


text \<open>The adapter as its field initialisers leave it, over a given storage entry.\<close>

definition fresh_adapter :: "item option \<Rightarrow> 'kp adapter" where
  "fresh_adapter entry =
     \<lparr>keypair = None, connecting = False, connected = False, disconnectTimer = None,
      localStorage = entry, emitted = []\<rparr>"

text \<open>
  The states the adapter can be in: the constructor's state, closed under its operations,
  the callback of the timeout, and writes to the storage entry by the page.
\<close>

inductive reachable :: "(nat list \<Rightarrow> 'kp option) \<Rightarrow> 'kp adapter \<Rightarrow> bool"
  for fromSecretKey :: "nat list \<Rightarrow> 'kp option" where
  reachable_fresh: "reachable fromSecretKey (fresh_adapter entry)"
| reachable_load:
    "reachable fromSecretKey s \<Longrightarrow> reachable fromSecretKey (loadBurnerWallet fromSecretKey now now' s)"
| reachable_timer: "reachable fromSecretKey s \<Longrightarrow> reachable fromSecretKey (timerFires now s)"
| reachable_connect: "reachable fromSecretKey s \<Longrightarrow> reachable fromSecretKey (snd (connect s))"
| reachable_disconnect: "reachable fromSecretKey s \<Longrightarrow> reachable fromSecretKey (snd (disconnect s))"
| reachable_storage: "reachable fromSecretKey s \<Longrightarrow> reachable fromSecretKey (s\<lparr>localStorage := entry\<rparr>)"

text \<open>
  The wallet whose record is stored has expired at \<open>now\<close>: the time is at or after
  \<open>createdAt + EXPIRY_TIME\<close>.
\<close>

definition expired :: "int \<Rightarrow> 'kp adapter \<Rightarrow> bool" where
  "expired now s =
     (case localStorage s of
        Some (Stored d) \<Rightarrow> (case createdAt d of Some c \<Rightarrow> c + EXPIRY_TIME \<le> now | None \<Rightarrow> False)
      | _ \<Rightarrow> False)"

text \<open>
  Stand-ins for the two library primitives, to run the adapter on concrete inputs: a key is
  accepted when it has 64 bytes and is its own keypair; a transaction is a flag (it has a
  recent blockhash) with the list of the keys that have signed it, and signing one that has
  no recent blockhash throws.
\<close>

definition test_fromSecretKey :: "nat list \<Rightarrow> nat list option" where
  "test_fromSecretKey bytes = (if length bytes = 64 then Some bytes else None)"

definition test_partialSign :: "nat list \<Rightarrow> bool \<times> nat list list \<Rightarrow> string + bool \<times> nat list list" where
  "test_partialSign k tx =
     (if fst tx then Inr (True, snd tx @ [k]) else Inl ''Transaction recentBlockhash required'')"

definition test_record :: walletData where
  "test_record =
     \<lparr>publicKey = ''9xQe'', secretKey = replicate 64 7, username = ''ann'',
      email = ''ann@example.org'', createdAt = Some 0\<rparr>"

subsection \<open>Creating a wallet (the BurnerWallet component)\<close>

text \<open>The state of the component: its four state variables and the alerts it has shown.\<close>

record page =
  isCreating :: bool
  showModal :: bool
  showSuccessModal :: bool
  walletAddress :: "string option"
  alerts :: "string list"

text \<open>
  \<^verbatim>\<open>createBurnerWallet(username, email)\<close> on the storage entry and the component.
  \<open>generate\<close> is the outcome of \<^verbatim>\<open>Keypair.generate()\<close>: the base-58 public key and the
  bytes of the secret key, \<open>None\<close> when it throws. \<open>select\<close> tells whether
  \<^verbatim>\<open>select('Burner')\<close> resolves. The catch block turns every exception into an alert,
  so the promise returned always resolves.
\<close>

definition createBurnerWallet ::
  "(string \<times> nat list) option \<Rightarrow> bool \<Rightarrow> int \<Rightarrow> string \<Rightarrow> string \<Rightarrow>
   item option \<times> page \<Rightarrow> (error + unit) \<times> item option \<times> page" where
  "createBurnerWallet generate select now uname mail sp =
     (case sp of (storage, p) \<Rightarrow>
        (case generate of
           None \<Rightarrow>
             (Inr (), storage,
              p\<lparr>isCreating := False,
                alerts := alerts p @ [''Failed to create wallet. Please try again.'']\<rparr>)
         | Some (pk, sk) \<Rightarrow>
             (let storage' = Some (Stored \<lparr>publicKey = pk, secretKey = sk, username = uname,
                                           email = mail, createdAt = Some now\<rparr>);
                  p' = p\<lparr>walletAddress := Some pk, showModal := False, showSuccessModal := True\<rparr>
              in if select then (Inr (), storage', p'\<lparr>isCreating := False\<rparr>)
                 else (Inr (), storage',
                       p'\<lparr>isCreating := False,
                          alerts := alerts p' @ [''Failed to create wallet. Please try again.'']\<rparr>))))"

section \<open>The rate-limited retrying fetch of the portfolio service\<close>

text \<open>The entries of \<^verbatim>\<open>CONFIG\<close> that the rate limiter and the retry loop read.\<close>

record config =
  REQUEST_WINDOW :: int
  MAX_REQUESTS_PER_WINDOW :: int
  MAX_RETRIES :: int
  BASE_DELAY :: int
  MAX_DELAY :: int

text \<open>
  The values of the repository's configuration file; \<^verbatim>\<open>MAX_REQUESTS_PER_WINDOW\<close> is
  parsed from the environment and is 30 when the variable is not set.
\<close>

definition CONFIG :: "int \<Rightarrow> config" where
  "CONFIG maxRequests =
     \<lparr>REQUEST_WINDOW = 60 * 1000, MAX_REQUESTS_PER_WINDOW = maxRequests,
      MAX_RETRIES = 3, BASE_DELAY = 2000, MAX_DELAY = 10000\<rparr>"

text \<open>
  The module state and its environment: the clock read by \<^verbatim>\<open>Date.now()\<close>, the array
  \<^verbatim>\<open>requestTimestamps\<close>, the delays passed to \<^verbatim>\<open>setTimeout\<close> so far by
  \<^verbatim>\<open>waitForRateLimit\<close> (\<open>None\<close> for NaN) and by \<^verbatim>\<open>fetchWithRetry\<close>, and the number
  of times the operation has been invoked.
\<close>

record world =
  clock :: int
  requestTimestamps :: "int list"
  rateLimitWaits :: "int option list"
  backoffDelays :: "int list"
  operationCalls :: nat

text \<open>The while loop of \<^verbatim>\<open>canMakeRequest\<close>: shift while the first timestamp is too old.\<close>

fun prune :: "int \<Rightarrow> int list \<Rightarrow> int list" where
  "prune lim [] = []"
| "prune lim (t # ts) = (if t < lim then prune lim ts else t # ts)"

definition canMakeRequest :: "config \<Rightarrow> world \<Rightarrow> bool \<times> world" where
  "canMakeRequest cfg w =
     (let ts = prune (clock w - REQUEST_WINDOW cfg) (requestTimestamps w)
      in (int (length ts) < MAX_REQUESTS_PER_WINDOW cfg, w\<lparr>requestTimestamps := ts\<rparr>))"

text \<open>
  \<^verbatim>\<open>REQUEST_WINDOW - (Date.now() - requestTimestamps[0])\<close>; reading index 0 of an empty
  array gives \<^verbatim>\<open>undefined\<close> and the difference is NaN.
\<close>

definition waitTime :: "config \<Rightarrow> world \<Rightarrow> int option" where
  "waitTime cfg w =
     (case requestTimestamps w of
        [] \<Rightarrow> None
      | oldestRequest # _ \<Rightarrow> Some (REQUEST_WINDOW cfg - (clock w - oldestRequest)))"

text \<open>
  Awaiting \<^verbatim>\<open>setTimeout(resolve, ms)\<close>: a NaN or negative delay is a delay of 0, and the
  callback runs \<open>late\<close> milliseconds after the delay has passed.
\<close>

definition sleep :: "int option \<Rightarrow> nat \<Rightarrow> world \<Rightarrow> world" where
  "sleep ms late w =
     w\<lparr>clock := clock w + (case ms of None \<Rightarrow> 0 | Some d \<Rightarrow> max 0 d) + int late\<rparr>"

text \<open>
  \<^verbatim>\<open>waitForRateLimit\<close>. The list gives how late each of the coming timeouts is; the
  function returns what is left of it. \<open>None\<close>: the list ended before admission.
\<close>

fun waitForRateLimit :: "config \<Rightarrow> nat list \<Rightarrow> world \<Rightarrow> (nat list \<times> world) option" where
  "waitForRateLimit cfg lates w =
     (if fst (canMakeRequest cfg w)
      then Some (lates,
                 (snd (canMakeRequest cfg w))
                   \<lparr>requestTimestamps := requestTimestamps (snd (canMakeRequest cfg w)) @ [clock w]\<rparr>)
      else
        (case lates of
           [] \<Rightarrow> None
         | late # rest \<Rightarrow>
             waitForRateLimit cfg rest
               (sleep (waitTime cfg (snd (canMakeRequest cfg w))) late
                  ((snd (canMakeRequest cfg w))
                     \<lparr>rateLimitWaits := rateLimitWaits w @ [waitTime cfg (snd (canMakeRequest cfg w))]\<rparr>))))"

text \<open>\<^verbatim>\<open>String.prototype.includes\<close>.\<close>

fun str_includes :: "string \<Rightarrow> string \<Rightarrow> bool" where
  "str_includes [] sub = (sub = [])"
| "str_includes (c # cs) sub = (take (length sub) (c # cs) = sub \<or> str_includes cs sub)"

definition is429 :: "string \<Rightarrow> bool" where
  "is429 message = (str_includes message ''429'' \<or> str_includes message ''Too Many Requests'')"

text \<open>What one invocation of the operation does: resolve to a value or reject with a message.\<close>

datatype 'a outcome = Resolves 'a | Rejects string

text \<open>
  The loop of \<^verbatim>\<open>fetchWithRetry(operation, retries, delay)\<close> from the value \<open>i\<close> of its
  counter. The first list gives the outcomes of the coming invocations of the operation.
  An error is the message of the \<^verbatim>\<open>Error\<close> thrown. \<open>None\<close>: one of the lists ended
  before the loop did.
\<close>

fun fetchWithRetry_from ::
  "config \<Rightarrow> int \<Rightarrow> int \<Rightarrow> int \<Rightarrow> 'a outcome list \<Rightarrow> nat list \<Rightarrow> world \<Rightarrow>
   ((string + 'a) \<times> world) option" where
  "fetchWithRetry_from cfg retries delay i outs lates w =
     (if \<not> i < retries then Some (Inl ''Maximum retries exceeded'', w)
      else
        (case waitForRateLimit cfg lates w of
           None \<Rightarrow> None
         | Some (lates1, w1) \<Rightarrow>
             (case outs of
                [] \<Rightarrow> None
              | Resolves v # _ \<Rightarrow> Some (Inr v, w1\<lparr>operationCalls := operationCalls w1 + 1\<rparr>)
              | Rejects message # outs' \<Rightarrow>
                  (if i = retries - 1 \<and> \<not> is429 message
                   then Some (Inl message, w1\<lparr>operationCalls := operationCalls w1 + 1\<rparr>)
                   else
                     (case lates1 of
                        [] \<Rightarrow> None
                      | late # lates2 \<Rightarrow>
                          (let currentDelay =
                                 (if is429 message then MAX_DELAY cfg
                                  else min (delay * 2 ^ nat i) (MAX_DELAY cfg));
                               w2 = sleep (Some currentDelay) late
                                      (w1\<lparr>operationCalls := operationCalls w1 + 1,
                                          backoffDelays := backoffDelays w1 @ [currentDelay]\<rparr>)
                           in if is429 message
                              then fetchWithRetry_from cfg retries delay (max 0 (i - 1) + 1) outs'
                                     lates2 (w2\<lparr>requestTimestamps := []\<rparr>)
                              else fetchWithRetry_from cfg retries delay (i + 1) outs' lates2 w2))))))"

definition fetchWithRetry ::
  "config \<Rightarrow> int \<Rightarrow> int \<Rightarrow> 'a outcome list \<Rightarrow> nat list \<Rightarrow> world \<Rightarrow>
   ((string + 'a) \<times> world) option" where
  "fetchWithRetry cfg retries delay outs lates w = fetchWithRetry_from cfg retries delay 0 outs lates w"


section \<open>The cached fetch of the price service (fetchWithCORS)\<close>

text \<open>Parsed JSON data, as far as JavaScript's truthiness tells the values apart.\<close>

datatype json =
    JNull
  | JBool bool
  | JNum int
  | JStr string
  | JArr "json list"
  | JObj "(string \<times> json) list"

fun truthy :: "json \<Rightarrow> bool" where
  "truthy JNull = False"
| "truthy (JBool b) = b"
| "truthy (JNum n) = (n \<noteq> 0)"
| "truthy (JStr s) = (s \<noteq> [])"
| "truthy (JArr xs) = True"
| "truthy (JObj kvs) = True"

definition CACHE_DURATION :: int where
  "CACHE_DURATION = 2 * 60 * 1000"

definition RATE_LIMIT_RESET :: int where
  "RATE_LIMIT_RESET = 60 * 1000"

definition MAX_REQUESTS_PER_MINUTE :: int where
  "MAX_REQUESTS_PER_MINUTE = 30"

definition INITIAL_BACKOFF :: int where
  "INITIAL_BACKOFF = 1000"

definition MAX_BACKOFF :: int where
  "MAX_BACKOFF = 32000"

definition MAX_RETRIES_CORS :: nat where
  "MAX_RETRIES_CORS = 3"

definition CORS_PROXIES :: "string list" where
  "CORS_PROXIES =
     [''https://corsproxy.io/?'', ''https://api.allorigins.win/raw?url='',
      ''https://cors-anywhere.herokuapp.com/'']"

text \<open>
  The module state and its environment: the clock, the object \<^verbatim>\<open>apiCache\<close> (data and
  timestamp of each entry), the two rate-limit variables, the number of calls of
  \<^verbatim>\<open>fetch\<close> made so far and the delays passed to \<^verbatim>\<open>wait\<close> so far.
\<close>

record api =
  apiClock :: int
  apiCache :: "string \<Rightarrow> (json \<times> int) option"
  requestCount :: int
  lastResetTime :: int
  fetchCalls :: nat
  waits :: "int list"

text \<open>What the module returns: the status and the parsed body of the \<^verbatim>\<open>Response\<close>.\<close>

record response =
  status :: nat
  body :: json

text \<open>
  What a call of \<^verbatim>\<open>fetch\<close> does: throw, or answer with a status, a status text and a
  body (\<open>None\<close> when \<^verbatim>\<open>response.json()\<close> throws on it).
\<close>

datatype fetch_result = NetworkError string | HttpResponse nat string "json option"

text \<open>The value of \<^verbatim>\<open>lastError\<close>, and the error thrown after the last retry.\<close>

datatype cause = Thrown string | HttpStatus nat string | BodyNotJson

datatype crypto_error = RATE_LIMIT | FETCH_ERROR "cause option"

text \<open>
  \<^verbatim>\<open>checkRateLimit\<close>; \<open>False\<close> when it throws the rate-limit error. The reset of the
  counter is kept when it throws.
\<close>

definition checkRateLimit :: "api \<Rightarrow> bool \<times> api" where
  "checkRateLimit a =
     (let a1 = (if apiClock a - lastResetTime a \<ge> RATE_LIMIT_RESET
                then a\<lparr>requestCount := 0, lastResetTime := apiClock a\<rparr> else a)
      in if requestCount a1 \<ge> MAX_REQUESTS_PER_MINUTE then (False, a1)
         else (True, a1\<lparr>requestCount := requestCount a1 + 1\<rparr>))"

text \<open>\<^verbatim>\<open>getCachedData\<close> returns the data of a live entry and \<^verbatim>\<open>null\<close> otherwise.\<close>

definition getCachedData :: "string \<Rightarrow> int \<Rightarrow> api \<Rightarrow> json" where
  "getCachedData key maxAge a =
     (case apiCache a key of
        None \<Rightarrow> JNull
      | Some (d, timestamp) \<Rightarrow> if apiClock a - timestamp < maxAge then d else JNull)"

definition setCachedData :: "string \<Rightarrow> json \<Rightarrow> api \<Rightarrow> api" where
  "setCachedData key d a = a\<lparr>apiCache := (apiCache a)(key \<mapsto> (d, apiClock a))\<rparr>"

text \<open>
  Awaiting \<^verbatim>\<open>wait(ms)\<close>; \<open>late n\<close> is how late the callback of the \<open>n\<close>-th timeout runs.
\<close>

definition wait :: "(nat \<Rightarrow> nat) \<Rightarrow> int \<Rightarrow> api \<Rightarrow> api" where
  "wait late ms a =
     a\<lparr>apiClock := apiClock a + max 0 ms + int (late (length (waits a))),
       waits := waits a @ [ms]\<rparr>"

text \<open>
  The inner loop over the proxies, from the values of \<^verbatim>\<open>lastError\<close> and
  \<^verbatim>\<open>backoffTime\<close>. \<open>net n\<close> is what the \<open>n\<close>-th call of \<^verbatim>\<open>fetch\<close> does. An empty
  \<open>cacheKey\<close> is a key that is not given, or the empty string: both are falsy. The first
  component of the result is the response returned from inside the loop, if any.
\<close>

fun tryProxies ::
  "(nat \<Rightarrow> fetch_result) \<Rightarrow> (nat \<Rightarrow> nat) \<Rightarrow> string \<Rightarrow> string list \<Rightarrow> cause option \<Rightarrow> int \<Rightarrow> api \<Rightarrow>
   response option \<times> cause option \<times> int \<times> api" where
  "tryProxies net late cacheKey [] lastError backoffTime a = (None, lastError, backoffTime, a)"
| "tryProxies net late cacheKey (proxy # rest) lastError backoffTime a =
     (case net (fetchCalls a) of
        NetworkError message \<Rightarrow>
          tryProxies net late cacheKey rest (Some (Thrown message)) backoffTime
            (a\<lparr>fetchCalls := fetchCalls a + 1\<rparr>)
      | HttpResponse st statusText content \<Rightarrow>
          (if st = 429
           then tryProxies net late cacheKey rest lastError (min (backoffTime * 2) MAX_BACKOFF)
                  (wait late backoffTime (a\<lparr>fetchCalls := fetchCalls a + 1\<rparr>))
           else if 200 \<le> st \<and> st \<le> 299
           then
             (case content of
                None \<Rightarrow>
                  tryProxies net late cacheKey rest (Some BodyNotJson) backoffTime
                    (a\<lparr>fetchCalls := fetchCalls a + 1\<rparr>)
              | Some d \<Rightarrow>
                  (Some \<lparr>status = 200, body = d\<rparr>, lastError, backoffTime,
                   (if cacheKey \<noteq> [] then setCachedData cacheKey d (a\<lparr>fetchCalls := fetchCalls a + 1\<rparr>)
                    else a\<lparr>fetchCalls := fetchCalls a + 1\<rparr>)))
           else tryProxies net late cacheKey rest (Some (HttpStatus st statusText)) backoffTime
                  (a\<lparr>fetchCalls := fetchCalls a + 1\<rparr>)))"

text \<open>The outer loop of \<^verbatim>\<open>fetchWithCORS\<close>, from the value \<open>retry\<close> of its counter.\<close>

function retryLoop ::
  "(nat \<Rightarrow> fetch_result) \<Rightarrow> (nat \<Rightarrow> nat) \<Rightarrow> string \<Rightarrow> nat \<Rightarrow> cause option \<Rightarrow> int \<Rightarrow> api \<Rightarrow>
   (crypto_error + response) \<times> api" where
  "retryLoop net late cacheKey retry lastError backoffTime a =
     (if \<not> retry \<le> MAX_RETRIES_CORS then (Inl (FETCH_ERROR lastError), a)
      else if \<not> fst (checkRateLimit a)
      then retryLoop net late cacheKey (retry + 1) lastError (min (backoffTime * 2) MAX_BACKOFF)
             (wait late backoffTime (snd (checkRateLimit a)))
      else
        (case tryProxies net late cacheKey CORS_PROXIES lastError backoffTime (snd (checkRateLimit a)) of
           (Some r, lastError', backoffTime', a') \<Rightarrow> (Inr r, a')
         | (None, lastError', backoffTime', a') \<Rightarrow>
             (if retry < MAX_RETRIES_CORS
              then retryLoop net late cacheKey (retry + 1) lastError'
                     (min (backoffTime' * 2) MAX_BACKOFF) (wait late backoffTime' a')
              else retryLoop net late cacheKey (retry + 1) lastError' backoffTime' a')))"
  by pat_completeness auto
termination
  by (relation "measure (\<lambda>(net, late, cacheKey, retry, lastError, backoffTime, a).
                            Suc MAX_RETRIES_CORS - retry)") auto

text \<open>
  \<^verbatim>\<open>fetchWithCORS(url, options, cacheKey, cacheDuration)\<close>: the cached data is used when
  the key and the data are both truthy.
\<close>

definition fetchWithCORS ::
  "(nat \<Rightarrow> fetch_result) \<Rightarrow> (nat \<Rightarrow> nat) \<Rightarrow> string \<Rightarrow> int \<Rightarrow> api \<Rightarrow> (crypto_error + response) \<times> api" where
  "fetchWithCORS net late cacheKey cacheDuration a =
     (if cacheKey \<noteq> [] \<and> truthy (getCachedData cacheKey cacheDuration a)
      then (Inr \<lparr>status = 200, body = getCachedData cacheKey cacheDuration a\<rparr>, a)
      else retryLoop net late cacheKey 0 None INITIAL_BACKOFF a)"


section \<open>Concrete states and inputs\<close>

text \<open>
  The adapter constructed at time 1000 over the record created at time 0, and the same
  adapter after \<^verbatim>\<open>connect\<close>.
\<close>

definition loaded_adapter :: "nat list adapter" where
  "loaded_adapter =
     loadBurnerWallet test_fromSecretKey 1000 1000 (fresh_adapter (Some (Stored test_record)))"

definition connected_adapter :: "nat list adapter" where
  "connected_adapter = snd (connect loaded_adapter)"

definition closed_page :: page where
  "closed_page =
     \<lparr>isCreating = False, showModal = True, showSuccessModal = False, walletAddress = None,
      alerts = []\<rparr>"

text \<open>
  The adapter constructed over an empty storage, after the page has created a wallet at
  time 0: the record is stored and the adapter has not loaded it.
\<close>

definition unloaded_adapter :: "nat list adapter" where
  "unloaded_adapter =
     (loadBurnerWallet test_fromSecretKey 0 0 (fresh_adapter None))
       \<lparr>localStorage :=
          fst (snd (createBurnerWallet (Some (''9xQe'', replicate 64 7)) True 0 ''ann''
                      ''ann@example.org'' (None, closed_page)))\<rparr>"

text \<open>The portfolio service when the module has just been loaded, at time 0.\<close>

definition world0 :: world where
  "world0 =
     \<lparr>clock = 0, requestTimestamps = [], rateLimitWaits = [], backoffDelays = [],
      operationCalls = 0\<rparr>"

text \<open>An invocation of the operation that rejects with a rate-limit error.\<close>

definition rejects429 :: "'a outcome \<Rightarrow> bool" where
  "rejects429 out = (case out of Resolves v \<Rightarrow> False | Rejects message \<Rightarrow> is429 message)"

text \<open>
  The counter \<open>i\<close> of the loop of \<^verbatim>\<open>fetchWithRetry\<close> after the given failed invocations,
  from its value before them: a failure that is not a rate-limit error advances it, and after
  a rate-limit error it is stepped back before the loop advances it.
\<close>

fun loop_counter :: "nat \<Rightarrow> 'a outcome list \<Rightarrow> nat" where
  "loop_counter i [] = i"
| "loop_counter i (out # outs) = loop_counter (if rejects429 out then max 1 i else i + 1) outs"

text \<open>The price service when the module has just been loaded, at time 0.\<close>

definition api0 :: api where
  "api0 =
     \<lparr>apiClock = 0, apiCache = Map.empty, requestCount = 0, lastResetTime = 0, fetchCalls = 0,
      waits = []\<rparr>"

text \<open>
  Two networks, on which every call of \<^verbatim>\<open>fetch\<close> answers 200 with the same body, an
  object or the number 0; and timeouts that all run on time.
\<close>

definition price_net :: "nat \<Rightarrow> fetch_result" where
  "price_net n = HttpResponse 200 ''OK'' (Some (JObj [(''usd'', JNum 5)]))"

definition zero_net :: "nat \<Rightarrow> fetch_result" where
  "zero_net n = HttpResponse 200 ''OK'' (Some (JNum 0))"

definition on_time :: "nat \<Rightarrow> nat" where
  "on_time n = 0"

section \<open>Properties of the wallet adapter\<close>

lemma clearWallet_fields [simp]:
  "keypair (clearWallet s) = None" "connected (clearWallet s) = False"
  "localStorage (clearWallet s) = None" "disconnectTimer (clearWallet s) = None"
  "connecting (clearWallet s) = connecting s"
  by (simp_all add: clearWallet_def)

lemma loaded_adapter_eq:
  "loaded_adapter =
     \<lparr>keypair = Some (replicate 64 7), connecting = False, connected = False,
      disconnectTimer = Some EXPIRY_TIME, localStorage = Some (Stored test_record), emitted = []\<rparr>"
  by (simp add: loaded_adapter_def loadBurnerWallet_def fresh_adapter_def test_record_def
      test_fromSecretKey_def setupDisconnectTimer_def EXPIRY_TIME_def)

lemma connected_adapter_eq:
  "connected_adapter =
     \<lparr>keypair = Some (replicate 64 7), connecting = False, connected = True,
      disconnectTimer = Some EXPIRY_TIME, localStorage = Some (Stored test_record),
      emitted = [ConnectEvent (replicate 64 7)]\<rparr>"
  by (simp add: connected_adapter_def loaded_adapter_eq connect_def)

text \<open>
  In every state the adapter can be in, a connected adapter holds a keypair, and
  \<^verbatim>\<open>_connecting\<close> is false between two operations.
\<close>

lemma reachable_invariant:
  "reachable fsk s \<Longrightarrow> (connected s \<longrightarrow> keypair s \<noteq> None) \<and> \<not> connecting s"
proof (induction rule: reachable.induct)
  case (reachable_fresh entry)
  then show ?case by (simp add: fresh_adapter_def)
next
  case (reachable_load s now now')
  then show ?case
    by (auto simp: loadBurnerWallet_def setupDisconnectTimer_def connect_def Let_def clearWallet_def
        split: option.splits item.splits if_splits)
next
  case (reachable_timer s now)
  then show ?case by (auto simp: timerFires_def clearWallet_def split: option.splits)
next
  case (reachable_connect s)
  then show ?case by (auto simp: connect_def split: option.splits)
next
  case (reachable_disconnect s)
  then show ?case by (simp add: disconnect_def)
next
  case (reachable_storage s entry)
  then show ?case by simp
qed

lemma connect_cleared:
  assumes "keypair s = None" and "\<not> connected s" and "\<not> connecting s"
  shows "connect s = (Inl (WalletConnectionError ''No burner wallet found''), s)"
  using assms by (simp add: connect_def)

lemma load_expired:
  assumes "localStorage s = Some (Stored d)" and "createdAt d = Some c"
    and "c + EXPIRY_TIME \<le> now" and "now \<le> now'"
  shows "\<exists>s0. loadBurnerWallet fsk now now' s = clearWallet s0 \<and> connecting s0 = connecting s"
  using assms
  by (auto simp: loadBurnerWallet_def setupDisconnectTimer_def Let_def split: option.splits
      intro: exI[of _ s])

text \<open>
  Claim C1, as the code has it. \<^verbatim>\<open>connect\<close> and \<^verbatim>\<open>signTransaction\<close> never look at the
  clock: the expiry is enforced where the wallet is loaded and by the timeout. Whenever the
  wallet is loaded, or the callback of its timeout runs, at a time at or after
  \<open>createdAt + EXPIRY_TIME\<close>, the adapter is left with no keypair, not connected, with no
  pending timeout and with the storage entry removed; from that state \<^verbatim>\<open>connect\<close> fails
  with a \<^verbatim>\<open>WalletConnectionError\<close> and leaves the state as it is (so every later
  \<^verbatim>\<open>connect\<close> fails alike), and \<^verbatim>\<open>signTransaction\<close> fails.
\<close>

theorem expired_wallet_cleared:
  assumes "localStorage s = Some (Stored d)" and "createdAt d = Some c"
    and "c + EXPIRY_TIME \<le> now" and "now \<le> now'" and "\<not> connecting s"
    and "s' = loadBurnerWallet fsk now now' s
         \<or> (disconnectTimer s = Some (c + EXPIRY_TIME) \<and> s' = timerFires now s)"
  shows "keypair s' = None \<and> \<not> connected s' \<and> localStorage s' = None \<and> disconnectTimer s' = None
         \<and> connect s' = (Inl (WalletConnectionError ''No burner wallet found''), s')
         \<and> signTransaction partialSign s' tx = Inl (WalletNotConnectedError [])"
proof -
  have "\<exists>s0. s' = clearWallet s0 \<and> connecting s0 = connecting s"
    using assms(6)
  proof
    assume "s' = loadBurnerWallet fsk now now' s"
    then show ?thesis using load_expired[OF assms(1-4)] by simp
  next
    assume "disconnectTimer s = Some (c + EXPIRY_TIME) \<and> s' = timerFires now s"
    then show ?thesis using assms(3) by (auto simp: timerFires_def)
  qed
  then obtain s0 where s0: "s' = clearWallet s0" "connecting s0 = connecting s" by blast
  then have f: "keypair s' = None" "\<not> connected s'" "localStorage s' = None"
    "disconnectTimer s' = None" "\<not> connecting s'"
    using assms(5) by simp_all
  show ?thesis using f connect_cleared[OF f(1,2,5)] by (simp add: signTransaction_def)
qed

text \<open>
  The theorem at the record created at time 0: loaded one second after it has expired, and
  loaded at time 1000 with the timeout running when it is due.
\<close>

theorem expired_wallet_cleared_witness:
  "keypair (loadBurnerWallet test_fromSecretKey (EXPIRY_TIME + 1000) (EXPIRY_TIME + 1000)
      (fresh_adapter (Some (Stored test_record)))) = None
   \<and> connect (timerFires EXPIRY_TIME loaded_adapter)
       = (Inl (WalletConnectionError ''No burner wallet found''),
          (fresh_adapter None)\<lparr>emitted := [DisconnectEvent]\<rparr>)"
  using expired_wallet_cleared[of "fresh_adapter (Some (Stored test_record))" test_record 0
      "EXPIRY_TIME + 1000" "EXPIRY_TIME + 1000"
      "loadBurnerWallet test_fromSecretKey (EXPIRY_TIME + 1000) (EXPIRY_TIME + 1000)
         (fresh_adapter (Some (Stored test_record)))"
      test_fromSecretKey test_partialSign "(True, [])"]
    expired_wallet_cleared[of loaded_adapter test_record 0 EXPIRY_TIME EXPIRY_TIME
      "timerFires EXPIRY_TIME loaded_adapter" test_fromSecretKey test_partialSign "(True, [])"]
  by (simp add: loaded_adapter_eq fresh_adapter_def test_record_def test_fromSecretKey_def
      loadBurnerWallet_def setupDisconnectTimer_def timerFires_def clearWallet_def EXPIRY_TIME_def
      connect_def)

text \<open>
  Claim C1 as it is stated fails. The adapter was loaded at time 1000 and connected; the
  callback of its timeout, due at \<open>EXPIRY_TIME\<close>, has not run yet (a timeout runs at its due
  time or later, much later in a page that is in the background). At \<open>EXPIRY_TIME\<close> and
  one minute after it the wallet has expired, yet \<^verbatim>\<open>connect\<close> succeeds, the wallet signs
  and the record is still stored.
\<close>

theorem expired_wallet_still_usable:
  "expired EXPIRY_TIME connected_adapter
   \<and> expired (EXPIRY_TIME + 60000) connected_adapter
   \<and> connect connected_adapter = (Inr (), connected_adapter)
   \<and> signTransaction test_partialSign connected_adapter (True, []) = Inr (True, [replicate 64 7])
   \<and> localStorage connected_adapter = Some (Stored test_record)"
  by (simp add: connected_adapter_eq expired_def test_record_def connect_def signTransaction_def
      test_partialSign_def)

text \<open>
  Claim C2, as the code has it. \<^verbatim>\<open>connect\<close> succeeds exactly when the adapter is already
  connected (or connecting) or holds a keypair, whether or not the wallet has expired; the
  only error it throws is the \<^verbatim>\<open>WalletConnectionError\<close> with the message
  \<^verbatim>\<open>No burner wallet found\<close>, also when no wallet exists; it never touches the storage
  entry, the keypair or the timeout, so it purges nothing; on a connected adapter, and on one
  without a keypair, it leaves the state as it is; and when it succeeds the adapter is
  connected.
\<close>

theorem connect_outcome:
  "(fst (connect s) = Inr () \<longleftrightarrow> connecting s \<or> connected s \<or> keypair s \<noteq> None)
   \<and> (fst (connect s) = Inr ()
       \<or> fst (connect s) = Inl (WalletConnectionError ''No burner wallet found''))
   \<and> localStorage (snd (connect s)) = localStorage s
   \<and> keypair (snd (connect s)) = keypair s
   \<and> disconnectTimer (snd (connect s)) = disconnectTimer s
   \<and> (\<not> connecting s \<and> (connected s \<or> keypair s = None) \<longrightarrow> snd (connect s) = s)
   \<and> (\<not> connecting s \<and> fst (connect s) = Inr () \<longrightarrow> connected (snd (connect s)))"
  by (auto simp: connect_def split: option.splits)

theorem connect_outcome_witness:
  "connect connected_adapter = (Inr (), connected_adapter)
   \<and> connect (fresh_adapter None :: nat list adapter)
       = (Inl (WalletConnectionError ''No burner wallet found''), fresh_adapter None)
   \<and> connected (snd (connect loaded_adapter))"
  using connect_outcome[of connected_adapter]
    connect_outcome[of "fresh_adapter None :: nat list adapter"]
    connect_outcome[of loaded_adapter]
  by (simp add: connected_adapter_eq loaded_adapter_eq fresh_adapter_def connect_def)

text \<open>
  Claim C2 as it is stated fails: on the adapter loaded at time 1000, whose wallet has
  expired one minute after \<open>EXPIRY_TIME\<close>, \<^verbatim>\<open>connect\<close> detects nothing, succeeds and
  leaves the record in the storage.
\<close>

theorem connect_ignores_expiry:
  "expired (EXPIRY_TIME + 60000) loaded_adapter
   \<and> fst (connect loaded_adapter) = Inr ()
   \<and> connected (snd (connect loaded_adapter))
   \<and> localStorage (snd (connect loaded_adapter)) = Some (Stored test_record)"
  by (simp add: loaded_adapter_eq expired_def test_record_def connect_def)

text \<open>
  Claim C7 at a storage entry that does not parse, written after the adapter was loaded:
  \<^verbatim>\<open>getTimeRemaining\<close> lets the exception of \<^verbatim>\<open>JSON.parse\<close> reach its caller and leaves
  the entry where it is, while \<^verbatim>\<open>loadBurnerWallet\<close> on the same state removes it.
\<close>

theorem getTimeRemaining_parse_error:
  "getTimeRemaining 5000 (connected_adapter\<lparr>localStorage := Some Malformed\<rparr>) = Inl ParseError
   \<and> localStorage (loadBurnerWallet test_fromSecretKey 5000 5000
        (connected_adapter\<lparr>localStorage := Some Malformed\<rparr>)) = None"
  by (simp add: getTimeRemaining_def loadBurnerWallet_def)

lemma promise_all_all_ok:
  "(\<forall>r \<in> set rs. \<exists>v. r = Inr v) \<Longrightarrow> promise_all rs = Inr (map projr rs)"
  by (induction rs) auto

lemma promise_all_first_error:
  "(\<forall>r \<in> set pre. \<exists>v. r = Inr v) \<Longrightarrow> promise_all (pre @ Inl e # post) = Inl e"
  by (induction pre) auto

text \<open>
  Claim C9, as the code has it. \<^verbatim>\<open>signTransaction\<close> fails with a
  \<^verbatim>\<open>WalletNotConnectedError\<close> when the adapter is not connected or holds no keypair, and
  also when the adapter is connected and the partial signature throws: the exception is
  re-thrown as a \<^verbatim>\<open>WalletNotConnectedError\<close> with its message. Otherwise it returns the
  transaction as the partial signature leaves it. \<^verbatim>\<open>signAllTransactions\<close> returns all the
  signed transactions when every element can be signed, and the error of the first element
  that fails otherwise.
\<close>

theorem sign_outcome:
  "(\<not> connected s \<or> keypair s = None \<longrightarrow>
      signTransaction partialSign s tx = Inl (WalletNotConnectedError []))
   \<and> (connected s \<and> keypair s = Some k \<longrightarrow>
        signTransaction partialSign s tx =
          (case partialSign k tx of
             Inl msg \<Rightarrow> Inl (WalletNotConnectedError msg)
           | Inr tx' \<Rightarrow> Inr tx'))
   \<and> ((\<forall>t \<in> set txs. \<exists>t'. signTransaction partialSign s t = Inr t') \<longrightarrow>
        signAllTransactions partialSign s txs
          = Inr (map (\<lambda>t. projr (signTransaction partialSign s t)) txs))
   \<and> ((\<forall>t \<in> set pre. \<exists>t'. signTransaction partialSign s t = Inr t')
        \<and> signTransaction partialSign s tx = Inl e \<longrightarrow>
        signAllTransactions partialSign s (pre @ tx # post) = Inl e)"
proof -
  have a: "\<not> connected s \<or> keypair s = None \<longrightarrow>
      signTransaction partialSign s tx = Inl (WalletNotConnectedError [])"
    by (auto simp: signTransaction_def)
  have b: "connected s \<and> keypair s = Some k \<longrightarrow>
        signTransaction partialSign s tx =
          (case partialSign k tx of
             Inl msg \<Rightarrow> Inl (WalletNotConnectedError msg)
           | Inr tx' \<Rightarrow> Inr tx')"
    by (auto simp: signTransaction_def)
  have c: "(\<forall>t \<in> set txs. \<exists>t'. signTransaction partialSign s t = Inr t') \<longrightarrow>
        signAllTransactions partialSign s txs
          = Inr (map (\<lambda>t. projr (signTransaction partialSign s t)) txs)"
    unfolding signAllTransactions_def
    using promise_all_all_ok[of "map (signTransaction partialSign s) txs"]
    by (auto simp: comp_def)
  have d: "(\<forall>t \<in> set pre. \<exists>t'. signTransaction partialSign s t = Inr t')
        \<and> signTransaction partialSign s tx = Inl e \<longrightarrow>
        signAllTransactions partialSign s (pre @ tx # post) = Inl e"
    unfolding signAllTransactions_def
    using promise_all_first_error[of "map (signTransaction partialSign s) pre" e
        "map (signTransaction partialSign s) post"]
    by auto
  show ?thesis using a b c d by blast
qed

theorem sign_outcome_witness:
  "signTransaction test_partialSign loaded_adapter (True, []) = Inl (WalletNotConnectedError [])
   \<and> signTransaction test_partialSign connected_adapter (True, []) = Inr (True, [replicate 64 7])
   \<and> signAllTransactions test_partialSign connected_adapter [(True, []), (True, [[1]])]
       = Inr [(True, [replicate 64 7]), (True, [[1], replicate 64 7])]
   \<and> signAllTransactions test_partialSign connected_adapter [(True, []), (False, []), (True, [[1]])]
       = Inl (WalletNotConnectedError ''Transaction recentBlockhash required'')"
  using sign_outcome[of loaded_adapter test_partialSign "(True, [])" "replicate 64 7" "[]" "[]"
      ParseError "[]"]
    sign_outcome[of connected_adapter test_partialSign "(True, [])" "replicate 64 7"
      "[(True, []), (True, [[1]])]" "[]" ParseError "[]"]
    sign_outcome[of connected_adapter test_partialSign "(False, [])" "replicate 64 7" "[]"
      "[(True, [])]" "WalletNotConnectedError ''Transaction recentBlockhash required''"
      "[(True, [[1]])]"]
  by (simp add: connected_adapter_eq loaded_adapter_eq test_partialSign_def signTransaction_def
      signAllTransactions_def)

text \<open>
  Claim C9 as it is stated fails: the adapter is connected and holds its keypair, the
  partial signature throws on a transaction without a recent blockhash, and
  \<^verbatim>\<open>signTransaction\<close> reports a \<^verbatim>\<open>WalletNotConnectedError\<close>.
\<close>

theorem sign_failure_not_connected_error:
  "connected connected_adapter \<and> keypair connected_adapter = Some (replicate 64 7)
   \<and> signTransaction test_partialSign connected_adapter (False, [])
       = Inl (WalletNotConnectedError ''Transaction recentBlockhash required'')"
  by (simp add: connected_adapter_eq signTransaction_def test_partialSign_def)

lemma unloaded_adapter_eq:
  "unloaded_adapter = fresh_adapter (Some (Stored test_record))"
  by (simp add: unloaded_adapter_def loadBurnerWallet_def fresh_adapter_def createBurnerWallet_def
      test_record_def closed_page_def)

text \<open>
  Claim C10, as the code has it. \<^verbatim>\<open>getTimeRemaining\<close> reads the storage entry and not
  the keypair of the adapter. Whenever a record whose creation time is \<open>c\<close> is stored,
  whether the adapter has loaded the wallet or not, it returns
  \<open>max 0 (c + EXPIRY_TIME - now)\<close>; a later call never returns more than an earlier one;
  the value is 0 from \<open>c + EXPIRY_TIME\<close> on; and it is 0 when no record is stored, as after
  \<^verbatim>\<open>clearWallet\<close>. The function returns a number and no state: it is a read.
\<close>

theorem getTimeRemaining_value:
  assumes "localStorage s = Some (Stored d)" and "createdAt d = Some c" and "now \<le> now'"
  shows "getTimeRemaining now s = Inr (Some (max 0 (c + EXPIRY_TIME - now)))
         \<and> getTimeRemaining now' s = Inr (Some (max 0 (c + EXPIRY_TIME - now')))
         \<and> max 0 (c + EXPIRY_TIME - now') \<le> max 0 (c + EXPIRY_TIME - now)
         \<and> (if c + EXPIRY_TIME \<le> now then getTimeRemaining now s = Inr (Some 0)
             else getTimeRemaining now s = Inr (Some (c + EXPIRY_TIME - now)))
         \<and> getTimeRemaining now' (s\<lparr>localStorage := None\<rparr>) = Inr (Some 0)
         \<and> getTimeRemaining now' (clearWallet s) = Inr (Some 0)
         \<and> getTimeRemaining now (s\<lparr>keypair := k, connected := b\<rparr>)
             = Inr (Some (max 0 (c + EXPIRY_TIME - now)))
         \<and> getTimeRemaining now (s\<lparr>keypair := None, connected := False, disconnectTimer := None\<rparr>)
             = Inr (Some (max 0 (c + EXPIRY_TIME - now)))"
  using assms by (simp add: getTimeRemaining_def clearWallet_def algebra_simps)

theorem getTimeRemaining_value_witness:
  "getTimeRemaining (23 * 60 * 60 * 1000) loaded_adapter = Inr (Some (60 * 60 * 1000))
   \<and> getTimeRemaining (EXPIRY_TIME + 1000) loaded_adapter = Inr (Some 0)
   \<and> getTimeRemaining (EXPIRY_TIME + 1000) (clearWallet loaded_adapter) = Inr (Some 0)
   \<and> getTimeRemaining (23 * 60 * 60 * 1000) unloaded_adapter = Inr (Some (60 * 60 * 1000))"
  using getTimeRemaining_value[where s = loaded_adapter and d = test_record and c = 0
      and now = "23 * 60 * 60 * 1000" and now' = "EXPIRY_TIME + 1000"
      and k = "Some (replicate 64 7)" and b = False]
    getTimeRemaining_value[where s = unloaded_adapter and d = test_record and c = 0
      and now = "23 * 60 * 60 * 1000" and now' = "EXPIRY_TIME + 1000" and k = None and b = False]
  by (simp add: loaded_adapter_eq unloaded_adapter_eq fresh_adapter_def test_record_def
      EXPIRY_TIME_def getTimeRemaining_def)

text \<open>
  Claim C10 as it is stated fails: the adapter was constructed over an empty storage and
  the page has then created a wallet. No wallet is loaded, \<^verbatim>\<open>connect\<close> finds none, and
  one second after the creation \<^verbatim>\<open>getTimeRemaining\<close> returns 86399000 and not 0.
\<close>

theorem getTimeRemaining_without_wallet:
  "keypair unloaded_adapter = None \<and> \<not> connected unloaded_adapter
   \<and> fst (connect unloaded_adapter) = Inl (WalletConnectionError ''No burner wallet found'')
   \<and> getTimeRemaining 1000 unloaded_adapter = Inr (Some 86399000)"
  by (simp add: unloaded_adapter_eq fresh_adapter_def test_record_def connect_def
      getTimeRemaining_def EXPIRY_TIME_def)





section \<open>Properties of the rate limiter and of the retry loop\<close>

lemma prune_length: "length (prune lim ts) \<le> length ts"
  by (induction ts) auto

lemma prune_prune: "lim1 \<le> lim2 \<Longrightarrow> prune lim2 (prune lim1 ts) = prune lim2 ts"
  by (induction ts) auto

lemma prune_same_or_head:
  "ts \<noteq> [] \<Longrightarrow> prune lim ts = ts \<or> (hd ts < lim \<and> length (prune lim ts) < length ts)"
  by (cases ts) (auto simp: less_Suc_eq_le prune_length)

lemma prune_hd: "prune lim ts = t # rest \<Longrightarrow> lim \<le> t"
  by (induction ts) (auto split: if_splits)

lemma canMakeRequest_fields [simp]:
  "clock (snd (canMakeRequest cfg w)) = clock w"
  "requestTimestamps (snd (canMakeRequest cfg w)) = prune (clock w - REQUEST_WINDOW cfg) (requestTimestamps w)"
  "rateLimitWaits (snd (canMakeRequest cfg w)) = rateLimitWaits w"
  "backoffDelays (snd (canMakeRequest cfg w)) = backoffDelays w"
  "operationCalls (snd (canMakeRequest cfg w)) = operationCalls w"
  "fst (canMakeRequest cfg w) \<longleftrightarrow>
     int (length (prune (clock w - REQUEST_WINDOW cfg) (requestTimestamps w))) < MAX_REQUESTS_PER_WINDOW cfg"
  by (simp_all add: canMakeRequest_def Let_def)

lemma sleep_fields [simp]:
  "requestTimestamps (sleep ms late w) = requestTimestamps w"
  "rateLimitWaits (sleep ms late w) = rateLimitWaits w"
  "backoffDelays (sleep ms late w) = backoffDelays w"
  "operationCalls (sleep ms late w) = operationCalls w"
  "clock (sleep (Some d) late w) = clock w + max 0 d + int late"
  "clock (sleep None late w) = clock w + int late"
  by (simp_all add: sleep_def)

lemma sleep_clock_mono: "clock w \<le> clock (sleep ms late w)"
  by (cases ms) (simp_all add: sleep_def)

declare waitForRateLimit.simps [simp del]

lemma waitForRateLimit_admit:
  "fst (canMakeRequest cfg w) \<Longrightarrow>
   waitForRateLimit cfg lates w =
     Some (lates, (snd (canMakeRequest cfg w))
        \<lparr>requestTimestamps := prune (clock w - REQUEST_WINDOW cfg) (requestTimestamps w) @ [clock w]\<rparr>)"
  by (subst waitForRateLimit.simps) simp

lemma waitForRateLimit_block:
  "\<not> fst (canMakeRequest cfg w) \<Longrightarrow>
   waitForRateLimit cfg (late # rest) w =
     waitForRateLimit cfg rest
       (sleep (waitTime cfg (snd (canMakeRequest cfg w))) late
          ((snd (canMakeRequest cfg w))
             \<lparr>rateLimitWaits := rateLimitWaits w @ [waitTime cfg (snd (canMakeRequest cfg w))]\<rparr>))"
  by (subst waitForRateLimit.simps) simp

lemma waitForRateLimit_block_Nil:
  "\<not> fst (canMakeRequest cfg w) \<Longrightarrow> waitForRateLimit cfg [] w = None"
  by (subst waitForRateLimit.simps) simp

text \<open>With a maximum of 0 or less nothing is ever admitted.\<close>

lemma waitForRateLimit_never:
  "MAX_REQUESTS_PER_WINDOW cfg \<le> 0 \<Longrightarrow> waitForRateLimit cfg lates w = None"
proof (induction lates arbitrary: w)
  case Nil
  then show ?case by (simp add: waitForRateLimit_block_Nil)
next
  case (Cons late rest)
  then show ?case by (simp add: waitForRateLimit_block)
qed

text \<open>What an admission leaves behind.\<close>

lemma waitForRateLimit_result:
  "waitForRateLimit cfg lates w = Some (lates', w') \<Longrightarrow>
   clock w \<le> clock w'
   \<and> requestTimestamps w' = prune (clock w' - REQUEST_WINDOW cfg) (requestTimestamps w) @ [clock w']
   \<and> int (length (prune (clock w' - REQUEST_WINDOW cfg) (requestTimestamps w))) < MAX_REQUESTS_PER_WINDOW cfg
   \<and> backoffDelays w' = backoffDelays w \<and> operationCalls w' = operationCalls w
   \<and> (\<exists>used. lates = used @ lates' \<and> length (rateLimitWaits w') = length (rateLimitWaits w) + length used)"
proof (induction lates arbitrary: w)
  case Nil
  then show ?case
    by (cases "fst (canMakeRequest cfg w)")
       (auto simp: waitForRateLimit_admit waitForRateLimit_block_Nil)
next
  case (Cons late rest)
  show ?case
  proof (cases "fst (canMakeRequest cfg w)")
    case True
    with Cons.prems show ?thesis by (auto simp: waitForRateLimit_admit)
  next
    case False
    let ?w1 = "snd (canMakeRequest cfg w)"
    let ?w2 = "sleep (waitTime cfg ?w1) late (?w1\<lparr>rateLimitWaits := rateLimitWaits w @ [waitTime cfg ?w1]\<rparr>)"
    from False Cons.prems have rec: "waitForRateLimit cfg rest ?w2 = Some (lates', w')"
      by (simp add: waitForRateLimit_block)
    note ih = Cons.IH[OF rec]
    have c12: "clock w \<le> clock ?w2"
      using sleep_clock_mono[of "?w1\<lparr>rateLimitWaits := rateLimitWaits w @ [waitTime cfg ?w1]\<rparr>"] by simp
    have ts2: "requestTimestamps ?w2 = prune (clock w - REQUEST_WINDOW cfg) (requestTimestamps w)"
      by simp
    have pp: "prune (clock w' - REQUEST_WINDOW cfg) (requestTimestamps ?w2)
              = prune (clock w' - REQUEST_WINDOW cfg) (requestTimestamps w)"
      unfolding ts2 using ih c12 by (intro prune_prune) linarith
    from ih obtain used where used: "rest = used @ lates'"
      "length (rateLimitWaits w') = length (rateLimitWaits ?w2) + length used" by blast
    have "late # rest = (late # used) @ lates'" using used by simp
    moreover have "length (rateLimitWaits w') = length (rateLimitWaits w) + length (late # used)"
      using used by simp
    ultimately have ex: "\<exists>u. late # rest = u @ lates' \<and> length (rateLimitWaits w') = length (rateLimitWaits w) + length u"
      by blast
    show ?thesis using ih c12 pp ex by simp
  qed
qed


lemma blocked_full:
  assumes "\<not> fst (canMakeRequest cfg w)" and "0 < MAX_REQUESTS_PER_WINDOW cfg"
    and "int (length (requestTimestamps w)) \<le> MAX_REQUESTS_PER_WINDOW cfg"
  shows "prune (clock w - REQUEST_WINDOW cfg) (requestTimestamps w) \<noteq> []"
    and "int (length (prune (clock w - REQUEST_WINDOW cfg) (requestTimestamps w))) = MAX_REQUESTS_PER_WINDOW cfg"
  using assms prune_length[of "clock w - REQUEST_WINDOW cfg" "requestTimestamps w"]
  by auto

text \<open>From a state whose oldest timestamp is at least a window old.\<close>

lemma waitForRateLimit_due:
  assumes "waitForRateLimit cfg lates w = Some (lates', w')"
    and "0 < MAX_REQUESTS_PER_WINDOW cfg"
    and "int (length (requestTimestamps w)) \<le> MAX_REQUESTS_PER_WINDOW cfg"
    and "requestTimestamps w = t0 # r" and "t0 + REQUEST_WINDOW cfg \<le> clock w"
  shows "\<exists>used. lates = used @ lates'
           \<and> rateLimitWaits w' = rateLimitWaits w @ replicate (length used) (Some 0)
           \<and> (used = [] \<longleftrightarrow> fst (canMakeRequest cfg w))
           \<and> (used = [] \<or> ((\<forall>l \<in> set (butlast used). l = 0) \<and> 0 < last used))"
  using assms
proof (induction lates arbitrary: w)
  case Nil
  then show ?case
    by (cases "fst (canMakeRequest cfg w)")
       (auto simp: waitForRateLimit_admit waitForRateLimit_block_Nil)
next
  case (Cons late rest)
  show ?case
  proof (cases "fst (canMakeRequest cfg w)")
    case True
    with Cons.prems(1) show ?thesis by (auto simp: waitForRateLimit_admit)
  next
    case False
    let ?lim = "clock w - REQUEST_WINDOW cfg"
    have full: "int (length (prune ?lim (requestTimestamps w))) = MAX_REQUESTS_PER_WINDOW cfg"
      using blocked_full(2)[OF False Cons.prems(2,3)] .
    have same: "prune ?lim (requestTimestamps w) = requestTimestamps w"
      using prune_same_or_head[of "requestTimestamps w" ?lim] full Cons.prems(3,4) by auto
    have nothd: "\<not> t0 < ?lim"
      using same Cons.prems(4) prune_length[of ?lim r] by (auto split: if_splits)
    have clk: "clock w = t0 + REQUEST_WINDOW cfg" using nothd Cons.prems(5) by linarith
    let ?w1 = "snd (canMakeRequest cfg w)"
    have wt: "waitTime cfg ?w1 = Some 0"
      using same Cons.prems(4) clk by (simp add: waitTime_def)
    let ?w2 = "sleep (Some 0) late (?w1\<lparr>rateLimitWaits := rateLimitWaits w @ [Some 0]\<rparr>)"
    from False Cons.prems(1) wt have rec: "waitForRateLimit cfg rest ?w2 = Some (lates', w')"
      by (simp add: waitForRateLimit_block)
    have ts2: "requestTimestamps ?w2 = t0 # r" using same Cons.prems(4) by simp
    have len2: "int (length (requestTimestamps ?w2)) \<le> MAX_REQUESTS_PER_WINDOW cfg"
      using ts2 Cons.prems(3,4) by simp
    have clk2: "clock ?w2 = t0 + REQUEST_WINDOW cfg + int late" using clk by simp
    have due2: "t0 + REQUEST_WINDOW cfg \<le> clock ?w2" using clk2 by simp
    from Cons.IH[OF rec Cons.prems(2) len2 ts2 due2]
    obtain used where u: "rest = used @ lates'"
      "rateLimitWaits w' = rateLimitWaits ?w2 @ replicate (length used) (Some 0)"
      "used = [] \<longleftrightarrow> fst (canMakeRequest cfg ?w2)"
      "used = [] \<or> ((\<forall>l \<in> set (butlast used). l = 0) \<and> 0 < last used)" by blast
    have adm2: "fst (canMakeRequest cfg ?w2) \<longleftrightarrow> 0 < late"
    proof (cases "0 < late")
      case True
      then have "prune (clock ?w2 - REQUEST_WINDOW cfg) (t0 # r) = prune (clock ?w2 - REQUEST_WINDOW cfg) r"
        using clk2 by simp
      then have "length (prune (clock ?w2 - REQUEST_WINDOW cfg) (t0 # r)) \<le> length r"
        using prune_length[of "clock ?w2 - REQUEST_WINDOW cfg" r] by simp
      then have "fst (canMakeRequest cfg ?w2)"
        using Cons.prems(3,4) ts2 by (simp del: sleep_fields prune.simps)
      with True show ?thesis by simp
    next
      case False
      then have "clock ?w2 = clock w" using clk clk2 by simp
      then have "fst (canMakeRequest cfg ?w2) = fst (canMakeRequest cfg w)"
        using same by (simp add: prune_prune)
      with False \<open>\<not> fst (canMakeRequest cfg w)\<close> show ?thesis by simp
    qed
    have 1: "late # rest = (late # used) @ lates'" using u(1) by simp
    have 2: "rateLimitWaits w' = rateLimitWaits w @ replicate (length (late # used)) (Some 0)"
      using u(2) by (simp add: replicate_append_same)
    have 3: "(\<forall>l \<in> set (butlast (late # used)). l = 0) \<and> 0 < last (late # used)"
      using u(3,4) adm2 by auto
    show ?thesis using 1 2 3 False by blast
  qed
qed


lemma admitted_after_wait:
  assumes "requestTimestamps w2 = t0 # r"
    and "int (length (t0 # r)) = MAX_REQUESTS_PER_WINDOW cfg"
    and "clock w2 = t0 + REQUEST_WINDOW cfg + int late"
  shows "fst (canMakeRequest cfg w2) \<longleftrightarrow> 0 < late"
proof (cases "0 < late")
  case True
  then have "prune (clock w2 - REQUEST_WINDOW cfg) (t0 # r) = prune (clock w2 - REQUEST_WINDOW cfg) r"
    using assms(3) by simp
  then have "length (prune (clock w2 - REQUEST_WINDOW cfg) (t0 # r)) \<le> length r"
    using prune_length[of "clock w2 - REQUEST_WINDOW cfg" r] by simp
  then have "fst (canMakeRequest cfg w2)"
    using assms(1,2) by (simp del: prune.simps)
  with True show ?thesis by simp
next
  case False
  then have "prune (clock w2 - REQUEST_WINDOW cfg) (t0 # r) = t0 # r"
    using assms(3) by simp
  then have "\<not> fst (canMakeRequest cfg w2)"
    using assms(1,2) by (simp del: prune.simps)
  with False show ?thesis by simp
qed

lemma waitForRateLimit_first_wait:
  assumes "waitForRateLimit cfg lates w = Some (lates', w')"
    and "0 < MAX_REQUESTS_PER_WINDOW cfg"
    and "int (length (requestTimestamps w)) \<le> MAX_REQUESTS_PER_WINDOW cfg"
    and "\<not> fst (canMakeRequest cfg w)"
  shows "\<exists>used. lates = used @ lates' \<and> used \<noteq> []
           \<and> rateLimitWaits w' =
               rateLimitWaits w
               @ Some (REQUEST_WINDOW cfg
                        - (clock w - hd (prune (clock w - REQUEST_WINDOW cfg) (requestTimestamps w))))
               # replicate (length used - 1) (Some 0)
           \<and> 0 \<le> REQUEST_WINDOW cfg
                    - (clock w - hd (prune (clock w - REQUEST_WINDOW cfg) (requestTimestamps w)))
           \<and> (\<forall>l \<in> set (butlast used). l = 0) \<and> 0 < last used"
proof -
  let ?lim = "clock w - REQUEST_WINDOW cfg"
  obtain late rest where lates: "lates = late # rest"
    using assms(1,4) by (cases lates) (auto simp: waitForRateLimit_block_Nil)
  obtain t0 r where pr: "prune ?lim (requestTimestamps w) = t0 # r"
    using blocked_full(1)[OF assms(4,2,3)] by (cases "prune ?lim (requestTimestamps w)") auto
  have full: "int (length (t0 # r)) = MAX_REQUESTS_PER_WINDOW cfg"
    using blocked_full(2)[OF assms(4,2,3)] pr by simp
  have t0: "?lim \<le> t0" using prune_hd[OF pr] .
  let ?d = "REQUEST_WINDOW cfg - (clock w - t0)"
  have d0: "0 \<le> ?d" using t0 by simp
  let ?w1 = "snd (canMakeRequest cfg w)"
  have wt: "waitTime cfg ?w1 = Some ?d" using pr by (simp add: waitTime_def)
  let ?w2 = "sleep (Some ?d) late (?w1\<lparr>rateLimitWaits := rateLimitWaits w @ [Some ?d]\<rparr>)"
  from assms(1,4) wt lates have rec: "waitForRateLimit cfg rest ?w2 = Some (lates', w')"
    by (simp add: waitForRateLimit_block)
  have ts2: "requestTimestamps ?w2 = t0 # r" using pr by simp
  have len2: "int (length (requestTimestamps ?w2)) \<le> MAX_REQUESTS_PER_WINDOW cfg"
    using ts2 full by simp
  have clk2: "clock ?w2 = t0 + REQUEST_WINDOW cfg + int late" using d0 by simp
  have due2: "t0 + REQUEST_WINDOW cfg \<le> clock ?w2" using clk2 by simp
  from waitForRateLimit_due[OF rec assms(2) len2 ts2 due2]
  obtain used where u: "rest = used @ lates'"
    "rateLimitWaits w' = rateLimitWaits ?w2 @ replicate (length used) (Some 0)"
    "used = [] \<longleftrightarrow> fst (canMakeRequest cfg ?w2)"
    "used = [] \<or> ((\<forall>l \<in> set (butlast used). l = 0) \<and> 0 < last used)" by blast
  have adm2: "fst (canMakeRequest cfg ?w2) \<longleftrightarrow> 0 < late"
    using admitted_after_wait[OF ts2 full clk2] .
  have 1: "lates = (late # used) @ lates'" using u(1) lates by simp
  have 2: "rateLimitWaits w' = rateLimitWaits w @ Some ?d # replicate (length (late # used) - 1) (Some 0)"
    using u(2) by simp
  have 3: "(\<forall>l \<in> set (butlast (late # used)). l = 0) \<and> 0 < last (late # used)"
    using u(3,4) adm2 by auto
  have hd: "hd (prune ?lim (requestTimestamps w)) = t0" using pr by simp
  show ?thesis
    unfolding hd using 1 2 3 d0 by blast
qed

lemma waitForRateLimit_returns:
  assumes "0 < MAX_REQUESTS_PER_WINDOW cfg"
    and "int (length (requestTimestamps w)) \<le> MAX_REQUESTS_PER_WINDOW cfg"
    and "\<exists>late \<in> set lates. 0 < late"
  shows "\<exists>lates' w'. waitForRateLimit cfg lates w = Some (lates', w')"
  using assms
proof (induction lates arbitrary: w)
  case Nil
  then show ?case by simp
next
  case (Cons late rest)
  show ?case
  proof (cases "fst (canMakeRequest cfg w)")
    case True
    then show ?thesis by (simp add: waitForRateLimit_admit)
  next
    case False
    let ?lim = "clock w - REQUEST_WINDOW cfg"
    obtain t0 r where pr: "prune ?lim (requestTimestamps w) = t0 # r"
      using blocked_full(1)[OF False Cons.prems(1,2)]
      by (cases "prune ?lim (requestTimestamps w)") auto
    have full: "int (length (t0 # r)) = MAX_REQUESTS_PER_WINDOW cfg"
      using blocked_full(2)[OF False Cons.prems(1,2)] pr by simp
    have t0: "?lim \<le> t0" using prune_hd[OF pr] .
    let ?d = "REQUEST_WINDOW cfg - (clock w - t0)"
    have d0: "0 \<le> ?d" using t0 by simp
    let ?w1 = "snd (canMakeRequest cfg w)"
    have wt: "waitTime cfg ?w1 = Some ?d" using pr by (simp add: waitTime_def)
    let ?w2 = "sleep (Some ?d) late (?w1\<lparr>rateLimitWaits := rateLimitWaits w @ [Some ?d]\<rparr>)"
    have step: "waitForRateLimit cfg (late # rest) w = waitForRateLimit cfg rest ?w2"
      using False wt by (simp add: waitForRateLimit_block)
    have ts2: "requestTimestamps ?w2 = t0 # r" using pr by simp
    have len2: "int (length (requestTimestamps ?w2)) \<le> MAX_REQUESTS_PER_WINDOW cfg"
      using ts2 full by simp
    have clk2: "clock ?w2 = t0 + REQUEST_WINDOW cfg + int late" using d0 by simp
    show ?thesis
    proof (cases "0 < late")
      case True
      then have "fst (canMakeRequest cfg ?w2)"
        using admitted_after_wait[OF ts2 full clk2] by simp
      then show ?thesis unfolding step by (simp only: waitForRateLimit_admit) blast
    next
      case False
      with Cons.prems(3) have "\<exists>l \<in> set rest. 0 < l" by auto
      from Cons.IH[OF Cons.prems(1) len2 this] show ?thesis unfolding step .
    qed
  qed
qed




declare fetchWithRetry_from.simps [simp del]

lemma fetchWithRetry_from_done:
  "\<not> i < retries \<Longrightarrow>
   fetchWithRetry_from cfg retries delay i outs lates w = Some (Inl ''Maximum retries exceeded'', w)"
  by (subst fetchWithRetry_from.simps) simp

lemma fetchWithRetry_from_blocked:
  "i < retries \<Longrightarrow> waitForRateLimit cfg lates w = None \<Longrightarrow>
   fetchWithRetry_from cfg retries delay i outs lates w = None"
  by (subst fetchWithRetry_from.simps) simp

lemma fetchWithRetry_from_Nil:
  "i < retries \<Longrightarrow>
   fetchWithRetry_from cfg retries delay i [] lates w = None"
  by (subst fetchWithRetry_from.simps) (simp split: option.splits)

lemma fetchWithRetry_from_success:
  "i < retries \<Longrightarrow> waitForRateLimit cfg lates w = Some (lates1, w1) \<Longrightarrow>
   fetchWithRetry_from cfg retries delay i (Resolves v # outs') lates w =
     Some (Inr v, w1\<lparr>operationCalls := operationCalls w1 + 1\<rparr>)"
  by (subst fetchWithRetry_from.simps) simp

lemma fetchWithRetry_from_rethrow:
  "i < retries \<Longrightarrow> waitForRateLimit cfg lates w = Some (lates1, w1) \<Longrightarrow>
   i = retries - 1 \<Longrightarrow> \<not> is429 message \<Longrightarrow>
   fetchWithRetry_from cfg retries delay i (Rejects message # outs') lates w =
     Some (Inl message, w1\<lparr>operationCalls := operationCalls w1 + 1\<rparr>)"
  by (subst fetchWithRetry_from.simps) simp

lemma fetchWithRetry_from_no_timer:
  "i < retries \<Longrightarrow> waitForRateLimit cfg lates w = Some ([], w1) \<Longrightarrow>
   \<not> (i = retries - 1 \<and> \<not> is429 message) \<Longrightarrow>
   fetchWithRetry_from cfg retries delay i (Rejects message # outs') lates w = None"
  by (subst fetchWithRetry_from.simps) auto

lemma fetchWithRetry_from_failure:
  assumes "i < retries" and "waitForRateLimit cfg lates w = Some (late # lates2, w1)"
    and "\<not> (i = retries - 1 \<and> \<not> is429 message)"
  shows "fetchWithRetry_from cfg retries delay i (Rejects message # outs') lates w =
     fetchWithRetry_from cfg retries delay (if is429 message then max 0 (i - 1) + 1 else i + 1) outs' lates2
       \<lparr>clock = clock w1
                  + max 0 (if is429 message then MAX_DELAY cfg
                           else min (delay * 2 ^ nat i) (MAX_DELAY cfg))
                  + int late,
        requestTimestamps = (if is429 message then [] else requestTimestamps w1),
        rateLimitWaits = rateLimitWaits w1,
        backoffDelays = backoffDelays w1
           @ [if is429 message then MAX_DELAY cfg else min (delay * 2 ^ nat i) (MAX_DELAY cfg)],
        operationCalls = operationCalls w1 + 1\<rparr>"
  using assms
  by (cases w1, subst fetchWithRetry_from.simps) (auto simp: Let_def sleep_def)

lemma not429_exhausted: "\<not> is429 ''Maximum retries exceeded''"
  by (simp add: is429_def)

lemma fetchWithRetry_from_attempts:
  assumes "fetchWithRetry_from cfg retries delay i outs lates w = Some (r, w')" and "0 \<le> i"
  shows "\<exists>k. operationCalls w' = operationCalls w + k \<and> k \<le> length outs
           \<and> int k \<le> max 0 (retries - i) + int (length (filter rejects429 (take k outs)))
           \<and> (case r of
                 Inr v \<Rightarrow> 0 < k \<and> outs ! (k - 1) = Resolves v
               | Inl message \<Rightarrow>
                   \<not> is429 message
                   \<and> (message = ''Maximum retries exceeded''
                       \<or> (0 < k \<and> outs ! (k - 1) = Rejects message)))"
  using assms
proof (induction outs arbitrary: i lates w)
  case Nil
  then show ?case
    by (cases "i < retries")
       (auto simp: fetchWithRetry_from_Nil fetchWithRetry_from_done not429_exhausted)
next
  case (Cons out outs')
  show ?case
  proof (cases "i < retries")
    case False
    with Cons.prems show ?thesis
      by (auto simp: fetchWithRetry_from_done not429_exhausted intro!: exI[of _ 0])
  next
    case True
    show ?thesis
    proof (cases "waitForRateLimit cfg lates w")
      case None
      with True Cons.prems show ?thesis by (simp add: fetchWithRetry_from_blocked)
    next
      case (Some a)
      obtain lates1 w1 where wl: "waitForRateLimit cfg lates w = Some (lates1, w1)"
        using Some by (cases a) auto
      have oc: "operationCalls w1 = operationCalls w"
        using waitForRateLimit_result[OF wl] by simp
      show ?thesis
      proof (cases out)
        case (Resolves v)
        with True wl Cons.prems oc show ?thesis
          by (auto simp: fetchWithRetry_from_success intro!: exI[of _ 1])
      next
        case (Rejects message)
        show ?thesis
        proof (cases "i = retries - 1 \<and> \<not> is429 message")
          case last: True
          with True wl Cons.prems oc Rejects show ?thesis
            by (auto simp: fetchWithRetry_from_rethrow intro!: exI[of _ 1])
        next
          case notlast: False
          show ?thesis
          proof (cases lates1)
            case Nil
            with True wl Cons.prems notlast Rejects show ?thesis
              using fetchWithRetry_from_no_timer[of i retries cfg lates w w1 message delay outs']
              by simp
          next
            case (Cons late lates2)
            let ?i' = "if is429 message then max 0 (i - 1) + 1 else i + 1"
            let ?w2 = "\<lparr>clock = clock w1
                  + max 0 (if is429 message then MAX_DELAY cfg
                           else min (delay * 2 ^ nat i) (MAX_DELAY cfg))
                  + int late,
                requestTimestamps = (if is429 message then [] else requestTimestamps w1),
                rateLimitWaits = rateLimitWaits w1,
                backoffDelays = backoffDelays w1
                   @ [if is429 message then MAX_DELAY cfg else min (delay * 2 ^ nat i) (MAX_DELAY cfg)],
                operationCalls = operationCalls w1 + 1\<rparr>"
            have rec: "fetchWithRetry_from cfg retries delay ?i' outs' lates2 ?w2 = Some (r, w')"
              using fetchWithRetry_from_failure[OF True wl[unfolded Cons] notlast, of delay outs']
                Cons.prems(1) Rejects by simp
            have i': "0 \<le> ?i'" using Cons.prems(2) by simp
            from Cons.IH[OF rec i'] obtain k where k:
              "operationCalls w' = operationCalls ?w2 + k" "k \<le> length outs'"
              "int k \<le> max 0 (retries - ?i') + int (length (filter rejects429 (take k outs')))"
              "(case r of
                 Inr v \<Rightarrow> 0 < k \<and> outs' ! (k - 1) = Resolves v
               | Inl message \<Rightarrow>
                   \<not> is429 message
                   \<and> (message = ''Maximum retries exceeded''
                       \<or> (0 < k \<and> outs' ! (k - 1) = Rejects message)))" by blast
            have 1: "operationCalls w' = operationCalls w + Suc k" using k(1) oc by simp
            have 2: "Suc k \<le> length (out # outs')" using k(2) by simp
            have 3: "int (Suc k) \<le> max 0 (retries - i)
                       + int (length (filter rejects429 (take (Suc k) (out # outs'))))"
              using k(3) True Cons.prems(2) Rejects by (auto simp: rejects429_def split: if_splits)
            have 4: "(case r of
                 Inr v \<Rightarrow> 0 < Suc k \<and> (out # outs') ! (Suc k - 1) = Resolves v
               | Inl message \<Rightarrow>
                   \<not> is429 message
                   \<and> (message = ''Maximum retries exceeded''
                       \<or> (0 < Suc k \<and> (out # outs') ! (Suc k - 1) = Rejects message)))"
              using k(4) by (cases r) (auto simp: nth_Cons split: nat.splits)
            show ?thesis using 1 2 3 4 by blast
          qed
        qed
      qed
    qed
  qed
qed


lemma fetchWithRetry_from_capped:
  assumes "fetchWithRetry_from cfg retries delay i outs lates w = Some (r, w')"
  shows "\<exists>ds. backoffDelays w' = backoffDelays w @ ds \<and> (\<forall>d \<in> set ds. d \<le> MAX_DELAY cfg)"
  using assms
proof (induction outs arbitrary: i lates w)
  case Nil
  then show ?case
    by (cases "i < retries") (auto simp: fetchWithRetry_from_Nil fetchWithRetry_from_done)
next
  case (Cons out outs')
  show ?case
  proof (cases "i < retries")
    case False
    with Cons.prems show ?thesis by (auto simp: fetchWithRetry_from_done)
  next
    case True
    show ?thesis
    proof (cases "waitForRateLimit cfg lates w")
      case None
      with True Cons.prems show ?thesis by (simp add: fetchWithRetry_from_blocked)
    next
      case (Some a)
      obtain lates1 w1 where wl: "waitForRateLimit cfg lates w = Some (lates1, w1)"
        using Some by (cases a) auto
      have bd: "backoffDelays w1 = backoffDelays w"
        using waitForRateLimit_result[OF wl] by simp
      show ?thesis
      proof (cases out)
        case (Resolves v)
        with True wl Cons.prems bd show ?thesis
          by (auto simp: fetchWithRetry_from_success)
      next
        case (Rejects message)
        show ?thesis
        proof (cases "i = retries - 1 \<and> \<not> is429 message")
          case last: True
          with True wl Cons.prems bd Rejects show ?thesis
            by (auto simp: fetchWithRetry_from_rethrow)
        next
          case notlast: False
          show ?thesis
          proof (cases lates1)
            case Nil
            with True wl Cons.prems notlast Rejects show ?thesis
              using fetchWithRetry_from_no_timer[of i retries cfg lates w w1 message delay outs']
              by simp
          next
            case (Cons late lates2)
            let ?d = "if is429 message then MAX_DELAY cfg else min (delay * 2 ^ nat i) (MAX_DELAY cfg)"
            let ?i' = "if is429 message then max 0 (i - 1) + 1 else i + 1"
            let ?w2 = "\<lparr>clock = clock w1 + max 0 ?d + int late,
                requestTimestamps = (if is429 message then [] else requestTimestamps w1),
                rateLimitWaits = rateLimitWaits w1,
                backoffDelays = backoffDelays w1 @ [?d],
                operationCalls = operationCalls w1 + 1\<rparr>"
            have rec: "fetchWithRetry_from cfg retries delay ?i' outs' lates2 ?w2 = Some (r, w')"
              using fetchWithRetry_from_failure[OF True wl[unfolded Cons] notlast, of delay outs']
                Cons.prems(1) Rejects by simp
            from Cons.IH[OF rec] obtain ds where ds:
              "backoffDelays w' = backoffDelays ?w2 @ ds" "\<forall>d \<in> set ds. d \<le> MAX_DELAY cfg" by blast
            have "backoffDelays w' = backoffDelays w @ (?d # ds)" using ds(1) bd by simp
            moreover have "\<forall>d \<in> set (?d # ds). d \<le> MAX_DELAY cfg" using ds(2) by simp
            ultimately show ?thesis by blast
          qed
        qed
      qed
    qed
  qed
qed

text \<open>Failures that are not rate-limit errors, with room left in the request window.\<close>

lemma fetchWithRetry_from_transient:
  assumes "\<forall>message \<in> set messages. \<not> is429 message" and "0 \<le> i"
    and "i + int (length messages) < retries"
    and "int (length (requestTimestamps w)) + int (length messages) < MAX_REQUESTS_PER_WINDOW cfg"
    and "length messages \<le> length lates"
  shows "\<exists>w'. fetchWithRetry_from cfg retries delay i (map Rejects messages @ Resolves v # rest) lates w
               = Some (Inr v, w')
           \<and> backoffDelays w' =
               backoffDelays w
               @ map (\<lambda>j. min (delay * 2 ^ j) (MAX_DELAY cfg)) [nat i ..< nat i + length messages]
           \<and> rateLimitWaits w' = rateLimitWaits w
           \<and> operationCalls w' = operationCalls w + length messages + 1"
  using assms
proof (induction messages arbitrary: i lates w)
  case Nil
  have adm: "fst (canMakeRequest cfg w)"
    using Nil.prems(4) prune_length[of "clock w - REQUEST_WINDOW cfg" "requestTimestamps w"] by simp
  have lt: "i < retries" using Nil.prems(3) by simp
  have wl: "waitForRateLimit cfg lates w =
     Some (lates, (snd (canMakeRequest cfg w))
        \<lparr>requestTimestamps := prune (clock w - REQUEST_WINDOW cfg) (requestTimestamps w) @ [clock w]\<rparr>)"
    using waitForRateLimit_admit[OF adm] .
  show ?case
    using fetchWithRetry_from_success[OF lt wl, of delay v rest] by simp
next
  case (Cons message messages)
  have adm: "fst (canMakeRequest cfg w)"
    using Cons.prems(4) prune_length[of "clock w - REQUEST_WINDOW cfg" "requestTimestamps w"] by simp
  obtain late lates2 where lates: "lates = late # lates2"
    using Cons.prems(5) by (cases lates) auto
  let ?w1 = "(snd (canMakeRequest cfg w))
        \<lparr>requestTimestamps := prune (clock w - REQUEST_WINDOW cfg) (requestTimestamps w) @ [clock w]\<rparr>"
  have wl: "waitForRateLimit cfg lates w = Some (late # lates2, ?w1)"
    using waitForRateLimit_admit[OF adm] lates by simp
  have n429: "\<not> is429 message" using Cons.prems(1) by simp
  have lt: "i < retries" and notlast: "\<not> (i = retries - 1 \<and> \<not> is429 message)"
    using Cons.prems(3) by auto
  let ?d = "min (delay * 2 ^ nat i) (MAX_DELAY cfg)"
  let ?w2 = "\<lparr>clock = clock ?w1 + max 0 ?d + int late,
                requestTimestamps = requestTimestamps ?w1,
                rateLimitWaits = rateLimitWaits ?w1,
                backoffDelays = backoffDelays ?w1 @ [?d],
                operationCalls = operationCalls ?w1 + 1\<rparr>"
  have step: "fetchWithRetry_from cfg retries delay i
                (map Rejects (message # messages) @ Resolves v # rest) lates w
              = fetchWithRetry_from cfg retries delay (i + 1)
                  (map Rejects messages @ Resolves v # rest) lates2 ?w2"
    using fetchWithRetry_from_failure[OF lt wl notlast, of delay "map Rejects messages @ Resolves v # rest"]
      n429 by simp
  have p1: "\<forall>m \<in> set messages. \<not> is429 m" using Cons.prems(1) by simp
  have p2: "0 \<le> i + 1" using Cons.prems(2) by simp
  have p3: "i + 1 + int (length messages) < retries" using Cons.prems(3) by simp
  have p4: "int (length (requestTimestamps ?w2)) + int (length messages) < MAX_REQUESTS_PER_WINDOW cfg"
    using Cons.prems(4) prune_length[of "clock w - REQUEST_WINDOW cfg" "requestTimestamps w"] by simp
  have p5: "length messages \<le> length lates2" using Cons.prems(5) lates by simp
  from Cons.IH[OF p1 p2 p3 p4 p5] obtain w' where w':
    "fetchWithRetry_from cfg retries delay (i + 1) (map Rejects messages @ Resolves v # rest) lates2 ?w2
       = Some (Inr v, w')"
    "backoffDelays w' =
       backoffDelays ?w2
       @ map (\<lambda>j. min (delay * 2 ^ j) (MAX_DELAY cfg)) [nat (i + 1) ..< nat (i + 1) + length messages]"
    "rateLimitWaits w' = rateLimitWaits ?w2"
    "operationCalls w' = operationCalls ?w2 + length messages + 1" by blast
  have nat1: "nat (i + 1) = Suc (nat i)" using Cons.prems(2) by simp
  have "nat i < nat i + length (message # messages)" by simp
  then have "[nat i ..< nat i + length (message # messages)]
             = nat i # [Suc (nat i) ..< nat i + length (message # messages)]"
    by (rule upt_conv_Cons)
  moreover have "nat i + length (message # messages) = Suc (nat i) + length messages" by simp
  ultimately have upt: "[nat i ..< nat i + length (message # messages)]
             = nat i # [nat (i + 1) ..< nat (i + 1) + length messages]"
    unfolding nat1 by (simp only:)
  have b: "backoffDelays w' =
             backoffDelays w
             @ map (\<lambda>j. min (delay * 2 ^ j) (MAX_DELAY cfg)) [nat i ..< nat i + length (message # messages)]"
    unfolding upt using w'(2) by simp
  show ?case
    unfolding step using w'(1) b w'(3,4) by simp
qed

lemma waitForRateLimit_one_timer:
  assumes "0 < MAX_REQUESTS_PER_WINDOW cfg"
    and "int (length (requestTimestamps w)) \<le> MAX_REQUESTS_PER_WINDOW cfg"
    and "\<forall>late \<in> set lates. 0 < late" and "lates \<noteq> []"
  shows "\<exists>lates1 w1. waitForRateLimit cfg lates w = Some (lates1, w1)
           \<and> length lates \<le> length lates1 + 1 \<and> set lates1 \<subseteq> set lates
           \<and> int (length (requestTimestamps w1)) \<le> MAX_REQUESTS_PER_WINDOW cfg"
proof -
  have "\<exists>late \<in> set lates. 0 < late" using assms(3,4) by (cases lates) auto
  from waitForRateLimit_returns[OF assms(1,2) this]
  obtain lates1 w1 where run: "waitForRateLimit cfg lates w = Some (lates1, w1)" by blast
  have len: "int (length (requestTimestamps w1)) \<le> MAX_REQUESTS_PER_WINDOW cfg"
    using waitForRateLimit_result[OF run] by simp
  show ?thesis
  proof (cases "fst (canMakeRequest cfg w)")
    case True
    then have "lates1 = lates" using run by (simp add: waitForRateLimit_admit)
    with run len show ?thesis by simp
  next
    case False
    from waitForRateLimit_first_wait[OF run assms(1,2) False]
    obtain used where u: "lates = used @ lates1" "used \<noteq> []" "\<forall>l \<in> set (butlast used). l = 0"
      by blast
    have "butlast used = []"
    proof (rule ccontr)
      assume "butlast used \<noteq> []"
      then obtain x where x: "x \<in> set (butlast used)" by (cases "butlast used") auto
      then have "x = 0" using u(3) by simp
      moreover have "x \<in> set lates" using x u(1) by (auto dest: in_set_butlastD)
      ultimately show False using assms(3) by auto
    qed
    then have "length used = 1" using u(2) by (cases used) (auto split: if_splits)
    with u(1) run len show ?thesis by auto
  qed
qed

lemma fetchWithRetry_from_returns:
  assumes "\<forall>out \<in> set outs. \<not> rejects429 out"
    and "0 < MAX_REQUESTS_PER_WINDOW cfg"
    and "int (length (requestTimestamps w)) \<le> MAX_REQUESTS_PER_WINDOW cfg"
    and "\<forall>late \<in> set lates. 0 < late"
    and "nat (retries - i) \<le> length outs" and "2 * nat (retries - i) \<le> length lates"
  shows "\<exists>r w'. fetchWithRetry_from cfg retries delay i outs lates w = Some (r, w')"
  using assms
proof (induction outs arbitrary: i lates w)
  case Nil
  then have "\<not> i < retries" by simp
  then show ?case by (simp add: fetchWithRetry_from_done)
next
  case (Cons out outs')
  show ?case
  proof (cases "i < retries")
    case False
    then show ?thesis by (simp add: fetchWithRetry_from_done)
  next
    case True
    then have ne: "lates \<noteq> []" using Cons.prems(6) by auto
    from waitForRateLimit_one_timer[OF Cons.prems(2,3,4) ne]
    obtain lates1 w1 where wl: "waitForRateLimit cfg lates w = Some (lates1, w1)"
      "length lates \<le> length lates1 + 1" "set lates1 \<subseteq> set lates"
      "int (length (requestTimestamps w1)) \<le> MAX_REQUESTS_PER_WINDOW cfg" by blast
    show ?thesis
    proof (cases out)
      case (Resolves v)
      with True wl(1) show ?thesis by (simp add: fetchWithRetry_from_success)
    next
      case (Rejects message)
      have n429: "\<not> is429 message" using Cons.prems(1) Rejects by (simp add: rejects429_def)
      show ?thesis
      proof (cases "i = retries - 1")
        case last: True
        with True wl(1) n429 Rejects show ?thesis by (simp add: fetchWithRetry_from_rethrow)
      next
        case notlast: False
        then have two: "2 \<le> nat (retries - i)" using True by simp
        then obtain late lates2 where l1: "lates1 = late # lates2"
          using wl(2) Cons.prems(6) by (cases lates1) auto
        let ?d = "min (delay * 2 ^ nat i) (MAX_DELAY cfg)"
        let ?w2 = "\<lparr>clock = clock w1 + max 0 ?d + int late,
                requestTimestamps = requestTimestamps w1,
                rateLimitWaits = rateLimitWaits w1,
                backoffDelays = backoffDelays w1 @ [?d],
                operationCalls = operationCalls w1 + 1\<rparr>"
        have step: "fetchWithRetry_from cfg retries delay i (out # outs') lates w
                    = fetchWithRetry_from cfg retries delay (i + 1) outs' lates2 ?w2"
          using fetchWithRetry_from_failure[OF True wl(1)[unfolded l1], of message delay outs']
            notlast n429 Rejects by simp
        have p1: "\<forall>out \<in> set outs'. \<not> rejects429 out" using Cons.prems(1) by simp
        have p3: "int (length (requestTimestamps ?w2)) \<le> MAX_REQUESTS_PER_WINDOW cfg"
          using wl(4) by simp
        have p4: "\<forall>late \<in> set lates2. 0 < late" using Cons.prems(4) wl(3) l1 by auto
        have p5: "nat (retries - (i + 1)) \<le> length outs'" using Cons.prems(5) True by simp
        have p6: "2 * nat (retries - (i + 1)) \<le> length lates2"
          using Cons.prems(6) wl(2) l1 True by simp
        from Cons.IH[OF p1 Cons.prems(2) p3 p4 p5 p6] show ?thesis unfolding step .
      qed
    qed
  qed
qed




text \<open>
  The counter in closed form: the number of the earlier failures that were not rate-limit
  errors, and one more when the first failure was a rate-limit error.
\<close>

lemma loop_counter_pos:
  "0 < i \<Longrightarrow> loop_counter i pre = i + length (filter (\<lambda>out. \<not> rejects429 out) pre)"
  by (induction pre arbitrary: i) auto

lemma loop_counter_zero:
  "loop_counter 0 pre =
     length (filter (\<lambda>out. \<not> rejects429 out) pre)
     + (if pre \<noteq> [] \<and> rejects429 (hd pre) then 1 else 0)"
  by (cases pre) (auto simp: loop_counter_pos)

lemma fetchWithRetry_from_delays:
  assumes "fetchWithRetry_from cfg retries delay i outs lates w = Some (r, w')" and "0 \<le> i"
  shows "\<exists>ds. backoffDelays w' = backoffDelays w @ ds \<and> length ds \<le> length outs
           \<and> (\<forall>j < length ds. \<exists>message. outs ! j = Rejects message
                 \<and> ds ! j = (if is429 message then MAX_DELAY cfg
                             else min (delay * 2 ^ loop_counter (nat i) (take j outs)) (MAX_DELAY cfg)))"
  using assms
proof (induction outs arbitrary: i lates w)
  case Nil
  then show ?case
    by (cases "i < retries") (auto simp: fetchWithRetry_from_Nil fetchWithRetry_from_done)
next
  case (Cons out outs')
  show ?case
  proof (cases "i < retries")
    case False
    with Cons.prems show ?thesis by (auto simp: fetchWithRetry_from_done)
  next
    case True
    show ?thesis
    proof (cases "waitForRateLimit cfg lates w")
      case None
      with True Cons.prems show ?thesis by (simp add: fetchWithRetry_from_blocked)
    next
      case (Some a)
      obtain lates1 w1 where wl: "waitForRateLimit cfg lates w = Some (lates1, w1)"
        using Some by (cases a) auto
      have bd: "backoffDelays w1 = backoffDelays w"
        using waitForRateLimit_result[OF wl] by simp
      show ?thesis
      proof (cases out)
        case (Resolves v)
        with True wl Cons.prems bd show ?thesis
          by (auto simp: fetchWithRetry_from_success)
      next
        case (Rejects message)
        show ?thesis
        proof (cases "i = retries - 1 \<and> \<not> is429 message")
          case last: True
          with True wl Cons.prems bd Rejects show ?thesis
            by (auto simp: fetchWithRetry_from_rethrow)
        next
          case notlast: False
          show ?thesis
          proof (cases lates1)
            case Nil
            with True wl Cons.prems notlast Rejects show ?thesis
              using fetchWithRetry_from_no_timer[of i retries cfg lates w w1 message delay outs']
              by simp
          next
            case (Cons late lates2)
            let ?d = "if is429 message then MAX_DELAY cfg else min (delay * 2 ^ nat i) (MAX_DELAY cfg)"
            let ?i' = "if is429 message then max 0 (i - 1) + 1 else i + 1"
            let ?w2 = "\<lparr>clock = clock w1 + max 0 ?d + int late,
                requestTimestamps = (if is429 message then [] else requestTimestamps w1),
                rateLimitWaits = rateLimitWaits w1,
                backoffDelays = backoffDelays w1 @ [?d],
                operationCalls = operationCalls w1 + 1\<rparr>"
            have rec: "fetchWithRetry_from cfg retries delay ?i' outs' lates2 ?w2 = Some (r, w')"
              using fetchWithRetry_from_failure[OF True wl[unfolded Cons] notlast, of delay outs']
                Cons.prems(1) Rejects by simp
            have i': "0 \<le> ?i'" using Cons.prems(2) by simp
            from Cons.IH[OF rec i'] obtain ds where ds:
              "backoffDelays w' = backoffDelays ?w2 @ ds" "length ds \<le> length outs'"
              "\<forall>j < length ds. \<exists>m. outs' ! j = Rejects m
                 \<and> ds ! j = (if is429 m then MAX_DELAY cfg
                             else min (delay * 2 ^ loop_counter (nat ?i') (take j outs')) (MAX_DELAY cfg))"
              by blast
            have nat': "nat ?i' = (if rejects429 out then max 1 (nat i) else nat i + 1)"
              using Cons.prems(2) Rejects by (auto simp: rejects429_def)
            have 1: "backoffDelays w' = backoffDelays w @ (?d # ds)" using ds(1) bd by simp
            have 2: "length (?d # ds) \<le> length (out # outs')" using ds(2) by simp
            have 3: "\<forall>j < length (?d # ds). \<exists>m. (out # outs') ! j = Rejects m
                 \<and> (?d # ds) ! j = (if is429 m then MAX_DELAY cfg
                             else min (delay * 2 ^ loop_counter (nat i) (take j (out # outs'))) (MAX_DELAY cfg))"
            proof (intro allI impI)
              fix j assume j: "j < length (?d # ds)"
              show "\<exists>m. (out # outs') ! j = Rejects m
                 \<and> (?d # ds) ! j = (if is429 m then MAX_DELAY cfg
                             else min (delay * 2 ^ loop_counter (nat i) (take j (out # outs'))) (MAX_DELAY cfg))"
              proof (cases j)
                case 0
                then show ?thesis using Rejects by simp
              next
                case (Suc j')
                then have "j' < length ds" using j by simp
                with ds(3) obtain m where m: "outs' ! j' = Rejects m"
                  "ds ! j' = (if is429 m then MAX_DELAY cfg
                             else min (delay * 2 ^ loop_counter (nat ?i') (take j' outs')) (MAX_DELAY cfg))"
                  by blast
                have "loop_counter (nat i) (take j (out # outs')) = loop_counter (nat ?i') (take j' outs')"
                  unfolding Suc nat' by simp
                with m Suc show ?thesis by simp
              qed
            qed
            show ?thesis using 1 2 3 by blast
          qed
        qed
      qed
    qed
  qed
qed

text \<open>
  Claim C8, as the code has it. The exponent of the backoff is the counter of the loop, not
  the number of the attempt: a retried failure that is not a rate-limit error is followed by
  a sleep of \<open>min (delay * 2 ^ c) MAX_DELAY\<close>, where \<open>c\<close> is the number of the earlier
  failures that were not rate-limit errors, plus one when the first failure was a rate-limit
  error. A failure that is a rate-limit error is followed by a sleep of \<open>MAX_DELAY\<close>, and
  the window is emptied before the next invocation. No delay of the loop exceeds
  \<open>MAX_DELAY\<close>. When no failure is a rate-limit error \<open>c\<close> is the number of the attempt:
  with room in the window, such failures followed by a success give the success, after the
  delays \<open>min (delay * 2 ^ attempt) MAX_DELAY\<close> for \<open>attempt = 0, 1, ...\<close>.
\<close>

theorem backoff_delays:
  "(i < retries \<and> waitForRateLimit cfg lates w = Some (late # lates2, w1)
      \<and> \<not> (i = retries - 1 \<and> \<not> is429 message) \<longrightarrow>
      fetchWithRetry_from cfg retries delay i (Rejects message # outs') lates w =
        fetchWithRetry_from cfg retries delay (if is429 message then max 0 (i - 1) + 1 else i + 1)
          outs' lates2
          \<lparr>clock = clock w1
                  + max 0 (if is429 message then MAX_DELAY cfg
                           else min (delay * 2 ^ nat i) (MAX_DELAY cfg))
                  + int late,
           requestTimestamps = (if is429 message then [] else requestTimestamps w1),
           rateLimitWaits = rateLimitWaits w1,
           backoffDelays = backoffDelays w1
             @ [if is429 message then MAX_DELAY cfg else min (delay * 2 ^ nat i) (MAX_DELAY cfg)],
           operationCalls = operationCalls w1 + 1\<rparr>)
   \<and> (fetchWithRetry_from cfg retries delay i outs lates w = Some (r, w') \<longrightarrow>
        (\<exists>ds. backoffDelays w' = backoffDelays w @ ds \<and> (\<forall>d \<in> set ds. d \<le> MAX_DELAY cfg)))
   \<and> ((\<forall>m \<in> set messages. \<not> is429 m) \<and> int (length messages) < retries
        \<and> int (length (requestTimestamps w)) + int (length messages) < MAX_REQUESTS_PER_WINDOW cfg
        \<and> length messages \<le> length lates \<longrightarrow>
        (\<exists>w''. fetchWithRetry cfg retries delay (map Rejects messages @ Resolves v # rest) lates w
                  = Some (Inr v, w'')
           \<and> backoffDelays w'' =
               backoffDelays w
               @ map (\<lambda>attempt. min (delay * 2 ^ attempt) (MAX_DELAY cfg)) [0 ..< length messages]))
   \<and> (fetchWithRetry cfg retries delay outs lates w = Some (r, w') \<longrightarrow>
        (\<exists>ds. backoffDelays w' = backoffDelays w @ ds \<and> length ds \<le> length outs
           \<and> (\<forall>j < length ds. \<exists>failure. outs ! j = Rejects failure
                 \<and> ds ! j =
                     (if is429 failure then MAX_DELAY cfg
                      else min (delay
                                 * 2 ^ (length (filter (\<lambda>out. \<not> rejects429 out) (take j outs))
                                        + (if 0 < j \<and> rejects429 (hd outs) then 1 else 0)))
                               (MAX_DELAY cfg)))))"
proof -
  have a: "i < retries \<and> waitForRateLimit cfg lates w = Some (late # lates2, w1)
      \<and> \<not> (i = retries - 1 \<and> \<not> is429 message) \<longrightarrow>
      fetchWithRetry_from cfg retries delay i (Rejects message # outs') lates w =
        fetchWithRetry_from cfg retries delay (if is429 message then max 0 (i - 1) + 1 else i + 1)
          outs' lates2
          \<lparr>clock = clock w1
                  + max 0 (if is429 message then MAX_DELAY cfg
                           else min (delay * 2 ^ nat i) (MAX_DELAY cfg))
                  + int late,
           requestTimestamps = (if is429 message then [] else requestTimestamps w1),
           rateLimitWaits = rateLimitWaits w1,
           backoffDelays = backoffDelays w1
             @ [if is429 message then MAX_DELAY cfg else min (delay * 2 ^ nat i) (MAX_DELAY cfg)],
           operationCalls = operationCalls w1 + 1\<rparr>"
    using fetchWithRetry_from_failure[of i retries cfg lates w late lates2 w1 message delay outs']
    by blast
  have b: "fetchWithRetry_from cfg retries delay i outs lates w = Some (r, w') \<longrightarrow>
        (\<exists>ds. backoffDelays w' = backoffDelays w @ ds \<and> (\<forall>d \<in> set ds. d \<le> MAX_DELAY cfg))"
    using fetchWithRetry_from_capped[of cfg retries delay i outs lates w r w'] by blast
  have c: "(\<forall>m \<in> set messages. \<not> is429 m) \<and> int (length messages) < retries
        \<and> int (length (requestTimestamps w)) + int (length messages) < MAX_REQUESTS_PER_WINDOW cfg
        \<and> length messages \<le> length lates \<longrightarrow>
        (\<exists>w''. fetchWithRetry cfg retries delay (map Rejects messages @ Resolves v # rest) lates w
                  = Some (Inr v, w'')
           \<and> backoffDelays w'' =
               backoffDelays w
               @ map (\<lambda>attempt. min (delay * 2 ^ attempt) (MAX_DELAY cfg)) [0 ..< length messages])"
    unfolding fetchWithRetry_def
    using fetchWithRetry_from_transient[of messages 0 retries w cfg lates delay v rest]
    by auto
  have d: "fetchWithRetry cfg retries delay outs lates w = Some (r, w') \<longrightarrow>
        (\<exists>ds. backoffDelays w' = backoffDelays w @ ds \<and> length ds \<le> length outs
           \<and> (\<forall>j < length ds. \<exists>failure. outs ! j = Rejects failure
                 \<and> ds ! j =
                     (if is429 failure then MAX_DELAY cfg
                      else min (delay
                                 * 2 ^ (length (filter (\<lambda>out. \<not> rejects429 out) (take j outs))
                                        + (if 0 < j \<and> rejects429 (hd outs) then 1 else 0)))
                               (MAX_DELAY cfg))))"
  proof
    assume run: "fetchWithRetry cfg retries delay outs lates w = Some (r, w')"
    then have "fetchWithRetry_from cfg retries delay 0 outs lates w = Some (r, w')"
      by (simp add: fetchWithRetry_def)
    from fetchWithRetry_from_delays[OF this] obtain ds where ds:
      "backoffDelays w' = backoffDelays w @ ds" "length ds \<le> length outs"
      "\<forall>j < length ds. \<exists>m. outs ! j = Rejects m
         \<and> ds ! j = (if is429 m then MAX_DELAY cfg
                     else min (delay * 2 ^ loop_counter (nat 0) (take j outs)) (MAX_DELAY cfg))"
      by auto
    have cnt: "loop_counter 0 (take j outs) =
                 length (filter (\<lambda>out. \<not> rejects429 out) (take j outs))
                 + (if 0 < j \<and> rejects429 (hd outs) then 1 else 0)" if "j < length ds" for j
    proof -
      have "j < length outs" using that ds(2) by simp
      then have "(take j outs \<noteq> [] \<and> rejects429 (hd (take j outs))) = (0 < j \<and> rejects429 (hd outs))"
        by (cases j; cases outs) auto
      then show ?thesis by (simp only: loop_counter_zero)
    qed
    have "\<forall>j < length ds. \<exists>failure. outs ! j = Rejects failure
                 \<and> ds ! j =
                     (if is429 failure then MAX_DELAY cfg
                      else min (delay
                                 * 2 ^ (length (filter (\<lambda>out. \<not> rejects429 out) (take j outs))
                                        + (if 0 < j \<and> rejects429 (hd outs) then 1 else 0)))
                               (MAX_DELAY cfg))"
      using ds(3) cnt by (metis nat_0)
    with ds(1,2) show "\<exists>ds. backoffDelays w' = backoffDelays w @ ds \<and> length ds \<le> length outs
           \<and> (\<forall>j < length ds. \<exists>failure. outs ! j = Rejects failure
                 \<and> ds ! j =
                     (if is429 failure then MAX_DELAY cfg
                      else min (delay
                                 * 2 ^ (length (filter (\<lambda>out. \<not> rejects429 out) (take j outs))
                                        + (if 0 < j \<and> rejects429 (hd outs) then 1 else 0)))
                               (MAX_DELAY cfg)))" by blast
  qed
  show ?thesis using a b c d by blast
qed

text \<open>
  Two failures and a success with the configured delays: 2000 and 4000 milliseconds; a
  rate-limit error at counter 1: 10000 milliseconds and an emptied window; and a rate-limit
  error first, then two other failures: 10000, 4000 and 8000 milliseconds.
\<close>

theorem backoff_delays_witness:
  "fetchWithRetry (CONFIG 30) 3 2000 [Rejects ''timeout'', Rejects ''timeout'', Resolves (1::nat)]
     [0, 0] world0
   = Some (Inr 1, world0\<lparr>clock := 6000, requestTimestamps := [0, 2000, 6000],
                          backoffDelays := [2000, 4000], operationCalls := 3\<rparr>)
   \<and> fetchWithRetry_from (CONFIG 30) 3 2000 1 [Rejects ''HTTP 429'', Resolves (1::nat)] [0]
       (world0\<lparr>requestTimestamps := [0]\<rparr>)
   = Some (Inr 1, world0\<lparr>clock := 10000, requestTimestamps := [10000],
                          backoffDelays := [10000], operationCalls := 2\<rparr>)
   \<and> fetchWithRetry (CONFIG 30) 5 2000
       [Rejects ''HTTP 429'', Rejects ''timeout'', Rejects ''timeout'', Resolves (1::nat)]
       [0, 0, 0] world0
   = Some (Inr 1, world0\<lparr>clock := 22000, requestTimestamps := [10000, 14000, 22000],
                          backoffDelays := [10000, 4000, 8000], operationCalls := 4\<rparr>)"
  using backoff_delays[of 1 3 "CONFIG 30" "[0]" "world0\<lparr>requestTimestamps := [0]\<rparr>" 0 "[]"
      "world0\<lparr>requestTimestamps := [0, 0]\<rparr>" "''HTTP 429''" 2000 "[Resolves (1::nat)]"
      "[Rejects ''HTTP 429'', Resolves (1::nat)]" "Inr 1"
      "world0\<lparr>clock := 10000, requestTimestamps := [10000],
              backoffDelays := [10000], operationCalls := 2\<rparr>"
      "[]" 1 "[]"]
    backoff_delays[of 0 3 "CONFIG 30" "[0, 0]" world0 0 "[0]"
      "world0\<lparr>requestTimestamps := [0]\<rparr>" "''timeout''" 2000
      "[Rejects ''timeout'', Resolves (1::nat)]"
      "[Rejects ''timeout'', Rejects ''timeout'', Resolves (1::nat)]" "Inr 1"
      "world0\<lparr>clock := 6000, requestTimestamps := [0, 2000, 6000],
              backoffDelays := [2000, 4000], operationCalls := 3\<rparr>"
      "[''timeout'', ''timeout'']" 1 "[]"]
    backoff_delays[of 0 5 "CONFIG 30" "[0, 0, 0]" world0 0 "[0, 0]"
      "world0\<lparr>requestTimestamps := [0]\<rparr>" "''HTTP 429''" 2000
      "[Rejects ''timeout'', Rejects ''timeout'', Resolves (1::nat)]"
      "[Rejects ''HTTP 429'', Rejects ''timeout'', Rejects ''timeout'', Resolves (1::nat)]" "Inr 1"
      "world0\<lparr>clock := 22000, requestTimestamps := [10000, 14000, 22000],
              backoffDelays := [10000, 4000, 8000], operationCalls := 4\<rparr>"
      "[]" 1 "[]"]
  by (simp add: fetchWithRetry_def fetchWithRetry_from.simps world0_def CONFIG_def is429_def
      waitForRateLimit.simps canMakeRequest_def sleep_def)

text \<open>
  Claim C8 as it is stated fails: with five retries, a failure, a rate-limit error and a
  second failure are followed by sleeps of 2000, 10000 and 4000 milliseconds. The third
  attempt, numbered 2, fails with an error that is not a rate-limit error and is followed by
  4000 milliseconds, where the formula of the claim gives 8000.
\<close>

theorem backoff_exponent_is_not_the_attempt:
  "fetchWithRetry (CONFIG 30) 5 2000
     [Rejects ''timeout'', Rejects ''HTTP 429'', Rejects ''timeout'', Resolves (1::nat)]
     [0, 0, 0] world0
   = Some (Inr 1, world0\<lparr>clock := 16000, requestTimestamps := [12000, 16000],
                          backoffDelays := [2000, 10000, 4000], operationCalls := 4\<rparr>)
   \<and> \<not> is429 ''timeout''
   \<and> min (BASE_DELAY (CONFIG 30) * 2 ^ 2) (MAX_DELAY (CONFIG 30)) = 8000"
  by (simp add: fetchWithRetry_def fetchWithRetry_from.simps world0_def CONFIG_def is429_def
      waitForRateLimit.simps canMakeRequest_def sleep_def)

section \<open>Properties of the cached fetch\<close>

declare retryLoop.simps [simp del]

lemma wait_fields [simp]:
  "fetchCalls (wait late ms a) = fetchCalls a"
  "apiCache (wait late ms a) = apiCache a"
  by (simp_all add: wait_def)

lemma checkRateLimit_fields [simp]:
  "fetchCalls (snd (checkRateLimit a)) = fetchCalls a"
  "apiCache (snd (checkRateLimit a)) = apiCache a"
  "apiClock (snd (checkRateLimit a)) = apiClock a"
  by (simp_all add: checkRateLimit_def Let_def)

lemma tryProxies_calls:
  "tryProxies net late cacheKey proxies lastError backoffTime a = (res, lastError', backoffTime', a') \<Longrightarrow>
   fetchCalls a \<le> fetchCalls a' \<and> (proxies \<noteq> [] \<longrightarrow> fetchCalls a < fetchCalls a')"
proof (induction proxies arbitrary: lastError backoffTime a)
  case Nil
  then show ?case by simp
next
  case (Cons proxy rest)
  show ?case
  proof (cases "net (fetchCalls a)")
    case (NetworkError message)
    with Cons.prems Cons.IH[of "Some (Thrown message)" backoffTime "a\<lparr>fetchCalls := fetchCalls a + 1\<rparr>"]
    show ?thesis by simp
  next
    case (HttpResponse st statusText content)
    show ?thesis
    proof (cases "st = 429")
      case True
      with HttpResponse Cons.prems
        Cons.IH[of lastError "min (backoffTime * 2) MAX_BACKOFF"
          "wait late backoffTime (a\<lparr>fetchCalls := fetchCalls a + 1\<rparr>)"]
      show ?thesis by simp
    next
      case False
      show ?thesis
      proof (cases "200 \<le> st \<and> st \<le> 299")
        case ok: True
        show ?thesis
        proof (cases content)
          case None
          with ok False HttpResponse Cons.prems
            Cons.IH[of "Some BodyNotJson" backoffTime "a\<lparr>fetchCalls := fetchCalls a + 1\<rparr>"]
          show ?thesis by simp
        next
          case (Some d)
          with ok False HttpResponse Cons.prems show ?thesis
            by (auto simp: setCachedData_def split: if_splits)
        qed
      next
        case notok: False
        with False HttpResponse Cons.prems
          Cons.IH[of "Some (HttpStatus st statusText)" backoffTime "a\<lparr>fetchCalls := fetchCalls a + 1\<rparr>"]
        show ?thesis by auto
      qed
    qed
  qed
qed

lemma tryProxies_stored:
  "tryProxies net late cacheKey proxies lastError backoffTime a = (Some r, lastError', backoffTime', a') \<Longrightarrow>
   cacheKey \<noteq> [] \<Longrightarrow> apiCache a' cacheKey = Some (body r, apiClock a') \<and> status r = 200"
proof (induction proxies arbitrary: lastError backoffTime a)
  case Nil
  then show ?case by simp
next
  case (Cons proxy rest)
  show ?case
  proof (cases "net (fetchCalls a)")
    case (NetworkError message)
    with Cons.prems Cons.IH[of "Some (Thrown message)" backoffTime "a\<lparr>fetchCalls := fetchCalls a + 1\<rparr>"]
    show ?thesis by simp
  next
    case (HttpResponse st statusText content)
    show ?thesis
    proof (cases "st = 429")
      case True
      with HttpResponse Cons.prems
        Cons.IH[of lastError "min (backoffTime * 2) MAX_BACKOFF"
          "wait late backoffTime (a\<lparr>fetchCalls := fetchCalls a + 1\<rparr>)"]
      show ?thesis by simp
    next
      case False
      show ?thesis
      proof (cases "200 \<le> st \<and> st \<le> 299")
        case ok: True
        show ?thesis
        proof (cases content)
          case None
          with ok False HttpResponse Cons.prems
            Cons.IH[of "Some BodyNotJson" backoffTime "a\<lparr>fetchCalls := fetchCalls a + 1\<rparr>"]
          show ?thesis by simp
        next
          case (Some d)
          with ok False HttpResponse Cons.prems show ?thesis
            by (auto simp: setCachedData_def)
        qed
      next
        case notok: False
        with False HttpResponse Cons.prems
          Cons.IH[of "Some (HttpStatus st statusText)" backoffTime "a\<lparr>fetchCalls := fetchCalls a + 1\<rparr>"]
        show ?thesis by auto
      qed
    qed
  qed
qed

lemma retryLoop_calls:
  "fetchCalls a \<le> fetchCalls (snd (retryLoop net late cacheKey retry lastError backoffTime a))"
proof (induction net late cacheKey retry lastError backoffTime a rule: retryLoop.induct)
  case (1 net late cacheKey retry lastError backoffTime a)
  show ?case
  proof (cases "retry \<le> MAX_RETRIES_CORS")
    case False
    then show ?thesis by (subst retryLoop.simps) simp
  next
    case le: True
    show ?thesis
    proof (cases "fst (checkRateLimit a)")
      case False
      with le "1.IH"(1) show ?thesis by (subst retryLoop.simps) simp
    next
      case adm: True
      obtain res le' b' a' where tp:
        "tryProxies net late cacheKey CORS_PROXIES lastError backoffTime (snd (checkRateLimit a))
         = (res, le', b', a')" by (metis prod_cases4)
      have c: "fetchCalls a \<le> fetchCalls a'" using tryProxies_calls[OF tp] by simp
      show ?thesis
      proof (cases res)
        case (Some r)
        with le adm tp c show ?thesis by (subst retryLoop.simps) simp
      next
        case None
        show ?thesis
        proof (cases "retry < MAX_RETRIES_CORS")
          case True
          have "fetchCalls (wait late b' a')
                  \<le> fetchCalls (snd (retryLoop net late cacheKey (retry + 1) le'
                                        (min (b' * 2) MAX_BACKOFF) (wait late b' a')))"
            using "1.IH"(2)[of None "(le', b', a')" le' "(b', a')" b' a'] le adm tp None True by simp
          with le adm tp None c True
          show ?thesis by (subst retryLoop.simps) simp
        next
          case False
          have "fetchCalls a'
                  \<le> fetchCalls (snd (retryLoop net late cacheKey (retry + 1) le' b' a'))"
            using "1.IH"(3)[of None "(le', b', a')" le' "(b', a')" b' a'] le adm tp None False by simp
          with le adm tp None c False
          show ?thesis by (subst retryLoop.simps) simp
        qed
      qed
    qed
  qed
qed


lemma retryLoop_stored:
  "retryLoop net late cacheKey retry lastError backoffTime a = (Inr r, a') \<Longrightarrow> cacheKey \<noteq> [] \<Longrightarrow>
   apiCache a' cacheKey = Some (body r, apiClock a') \<and> status r = 200"
proof (induction net late cacheKey retry lastError backoffTime a rule: retryLoop.induct)
  case (1 net late cacheKey retry lastError backoffTime a)
  note run = "1.prems"(1)
  show ?case
  proof (cases "retry \<le> MAX_RETRIES_CORS")
    case False
    with run show ?thesis by (subst (asm) retryLoop.simps) simp
  next
    case le: True
    show ?thesis
    proof (cases "fst (checkRateLimit a)")
      case False
      with le run have "retryLoop net late cacheKey (retry + 1) lastError
          (min (backoffTime * 2) MAX_BACKOFF) (wait late backoffTime (snd (checkRateLimit a))) = (Inr r, a')"
        by (subst (asm) retryLoop.simps) simp
      with "1.IH"(1) le False "1.prems"(2) show ?thesis by simp
    next
      case adm: True
      obtain res le' b' a1 where tp:
        "tryProxies net late cacheKey CORS_PROXIES lastError backoffTime (snd (checkRateLimit a))
         = (res, le', b', a1)" by (metis prod_cases4)
      show ?thesis
      proof (cases res)
        case (Some r1)
        with le adm tp run have "r1 = r" "a1 = a'" by (subst (asm) retryLoop.simps, simp)+
        with tryProxies_stored[OF tp[unfolded Some] "1.prems"(2)] show ?thesis by simp
      next
        case None
        show ?thesis
        proof (cases "retry < MAX_RETRIES_CORS")
          case True
          with le adm tp None run have "retryLoop net late cacheKey (retry + 1) le'
              (min (b' * 2) MAX_BACKOFF) (wait late b' a1) = (Inr r, a')"
            by (subst (asm) retryLoop.simps) simp
          then show ?thesis
            using "1.IH"(2)[of None "(le', b', a1)" le' "(b', a1)" b' a1] le adm tp None True "1.prems"(2)
            by simp
        next
          case False
          with le adm tp None run have "retryLoop net late cacheKey (retry + 1) le' b' a1 = (Inr r, a')"
            by (subst (asm) retryLoop.simps) simp
          then show ?thesis
            using "1.IH"(3)[of None "(le', b', a1)" le' "(b', a1)" b' a1] le adm tp None False "1.prems"(2)
            by simp
        qed
      qed
    qed
  qed
qed

lemma retryLoop_fetches:
  assumes "fst (checkRateLimit a)"
  shows "fetchCalls a < fetchCalls (snd (retryLoop net late cacheKey 0 lastError backoffTime a))"
proof -
  obtain res le' b' a1 where tp:
    "tryProxies net late cacheKey CORS_PROXIES lastError backoffTime (snd (checkRateLimit a))
     = (res, le', b', a1)" by (metis prod_cases4)
  have c: "fetchCalls a < fetchCalls a1"
    using tryProxies_calls[OF tp] by (simp add: CORS_PROXIES_def)
  show ?thesis
  proof (cases res)
    case (Some r)
    with assms tp c show ?thesis by (subst retryLoop.simps) simp
  next
    case None
    have "fetchCalls (wait late b' a1)
            \<le> fetchCalls (snd (retryLoop net late cacheKey (0 + 1) le' (min (b' * 2) MAX_BACKOFF)
                                  (wait late b' a1)))"
      by (rule retryLoop_calls)
    with None assms tp c show ?thesis
      by (subst retryLoop.simps) (simp add: MAX_RETRIES_CORS_def)
  qed
qed


lemma first_price_fetch:
  "fetchWithCORS price_net on_time ''prices'' 60000 api0
   = (Inr \<lparr>status = 200, body = JObj [(''usd'', JNum 5)]\<rparr>,
      api0\<lparr>apiCache := [''prices'' \<mapsto> (JObj [(''usd'', JNum 5)], 0)], requestCount := 1,
           fetchCalls := 1\<rparr>)"
  by (simp add: fetchWithCORS_def getCachedData_def api0_def retryLoop.simps MAX_RETRIES_CORS_def
      checkRateLimit_def RATE_LIMIT_RESET_def MAX_REQUESTS_PER_MINUTE_def CORS_PROXIES_def
      price_net_def setCachedData_def INITIAL_BACKOFF_def)



end
